theory Spec2Isabelle
  imports Complex_Main
begin

section \<open>JavaScript numbers\<close>

text \<open>
  Offsets and durations are JavaScript numbers. They are modelled as exact rationals
  extended with the three special values; rounding and the sign of zero are not modelled.
  Device-clock readings (\<open>ac.currentTime\<close>) and buffer durations are finite and are
  kept as \<open>rat\<close>.
\<close>

datatype jsnum = NaN | NegInf | Num rat | PosInf

fun js_neg :: "jsnum \<Rightarrow> jsnum" where
  "js_neg NaN = NaN"
| "js_neg NegInf = PosInf"
| "js_neg PosInf = NegInf"
| "js_neg (Num a) = Num (- a)"

fun js_add :: "jsnum \<Rightarrow> jsnum \<Rightarrow> jsnum" where
  "js_add NaN y = NaN"
| "js_add NegInf y = (case y of NaN \<Rightarrow> NaN | PosInf \<Rightarrow> NaN | _ \<Rightarrow> NegInf)"
| "js_add PosInf y = (case y of NaN \<Rightarrow> NaN | NegInf \<Rightarrow> NaN | _ \<Rightarrow> PosInf)"
| "js_add (Num a) y = (case y of Num b \<Rightarrow> Num (a + b) | _ \<Rightarrow> y)"

definition js_sub :: "jsnum \<Rightarrow> jsnum \<Rightarrow> jsnum" where
  "js_sub x y = js_add x (js_neg y)"

text \<open>\<open>x >= y\<close>: false as soon as one side is \<open>NaN\<close>.\<close>

fun js_ge :: "jsnum \<Rightarrow> jsnum \<Rightarrow> bool" where
  "js_ge NaN y = False"
| "js_ge PosInf y = (y \<noteq> NaN)"
| "js_ge NegInf y = (y = NegInf)"
| "js_ge (Num a) y = (case y of Num b \<Rightarrow> b \<le> a | NegInf \<Rightarrow> True | _ \<Rightarrow> False)"

text \<open>\<open>x === y\<close> on numbers: \<open>NaN\<close> equals nothing.\<close>

definition js_eq :: "jsnum \<Rightarrow> jsnum \<Rightarrow> bool" where
  "js_eq x y = (x = y \<and> x \<noteq> NaN)"

text \<open>\<open>Math.min(x, y)\<close> and \<open>Math.max(x, y)\<close>.\<close>

definition js_min :: "jsnum \<Rightarrow> jsnum \<Rightarrow> jsnum" where
  "js_min x y = (if x = NaN \<or> y = NaN then NaN else if js_ge x y then y else x)"

definition js_max :: "jsnum \<Rightarrow> jsnum \<Rightarrow> jsnum" where
  "js_max x y = (if x = NaN \<or> y = NaN then NaN else if js_ge x y then x else y)"

text \<open>\<open>Math.max.apply(Math, xs)\<close>: the maximum of no argument is \<open>-Infinity\<close>.\<close>

definition js_max_list :: "jsnum list \<Rightarrow> jsnum" where
  "js_max_list xs = foldl js_max NegInf xs"

text \<open>Truthiness of a number: \<open>0\<close> and \<open>NaN\<close> are falsy.\<close>

definition js_truthy :: "jsnum \<Rightarrow> bool" where
  "js_truthy x = (x \<noteq> NaN \<and> x \<noteq> Num 0)"

text \<open>A field holding \<open>null\<close> or a number, read as a number: \<open>null\<close> is \<open>0\<close>.\<close>

definition num_of_null :: "jsnum option \<Rightarrow> jsnum" where
  "num_of_null v = (case v of None \<Rightarrow> Num 0 | Some x \<Rightarrow> x)"

text \<open>A field holding \<open>undefined\<close> or a number, read as a number: \<open>undefined\<close> is \<open>NaN\<close>.\<close>

definition num_of_undef :: "jsnum option \<Rightarrow> jsnum" where
  "num_of_undef v = (case v of None \<Rightarrow> NaN | Some x \<Rightarrow> x)"

section \<open>The audio context, the chunk store and the event loop\<close>

text \<open>
  Objects are compared by identity in the source (\<open>output !== this.trackNode\<close>); an
  object is its allocation number. \<open>next_obj\<close> is the number the next node created by
  the audio context receives.
\<close>

record src =
  src_id :: nat
  src_dur :: rat

text \<open>
  What runs when a pending \<open>store.getAudioBuffer\<close> promise resolves: the rest of
  \<open>prime\<close> (with its \<open>offset\<close>), or the \<open>then\<close> callback of \<open>next\<close> (with the
  \<open>when\<close>, \<open>offset\<close> and \<open>output\<close> it closes over).
\<close>

datatype cont = PrimeK jsnum | NextK rat jsnum nat

record fetch =
  f_id :: nat
  f_owner :: nat
  f_name :: "string option"
  f_offset :: jsnum
  f_len :: jsnum
  f_cont :: cont

record timer =
  t_id :: nat
  t_owner :: nat
  t_delay :: rat
  t_when :: rat
  t_offset :: jsnum
  t_output :: nat

text \<open>A source connected to an output node and started: \<open>src.connect(output); src.start(when)\<close>.\<close>

record start_ev =
  st_src :: nat
  st_output :: nat
  st_when :: rat

record env =
  clock :: rat
  next_obj :: nat
  next_id :: nat
  next_task :: nat
  fetches :: "fetch list"
  timers :: "timer list"
  started :: "start_ev list"
  onended :: "(nat \<times> nat) list"

section \<open>Streamer\<close>

record streamer =
  streamID :: nat
  url :: "string option"
  name :: "string option"
  duration :: "jsnum option"
  ready :: bool
  stopped :: bool
  startTime :: "rat option"
  startOffset :: "jsnum option"
  trackNode :: nat
  gain :: nat
  garbageBuffer :: bool
  primed :: "(jsnum \<times> src) option"
  ending :: "nat option"
  fetchtimer :: "nat option"

text \<open>
  The errors the source throws: \<open>Error(`asset ${name} not loaded`)\<close>,
  \<open>Error(`stream ${name} is already playing`)\<close>,
  \<open>Error(`${offset} is greater than ${duration}`)\<close>, and the \<open>TypeError\<close> of
  \<open>this.clips.push\<close> on the undefined \<open>this.clips\<close>.
\<close>

datatype error =
    AssetNotLoaded "string option"
  | AlreadyPlaying "string option"
  | OffsetGreater jsnum "jsnum option"
  | ClipsUndefined

text \<open>\<open>if (url)\<close>: \<open>null\<close> and the empty string are falsy.\<close>

definition truthy_url :: "string option \<Rightarrow> bool" where
  "truthy_url u = (case u of None \<Rightarrow> False | Some x \<Rightarrow> x \<noteq> [])"

text \<open>\<open>url.split('/').pop().split('.')[0]\<close>\<close>

definition clip_name :: "string \<Rightarrow> string" where
  "clip_name u =
     takeWhile (\<lambda>c. c \<noteq> CHR ''.'') (rev (takeWhile (\<lambda>c. c \<noteq> CHR ''/'') (rev u)))"

text \<open>
  Modelled from the spec: \<open>getNextID\<close> reads \<open>AudioWorkletStreamer.nextID++\<close>, and the
  class \<open>AudioWorkletStreamer\<close> is not among the sources; the spec has the id as a
  unique integer, monotonically assigned at creation, which is the counter \<open>next_id\<close>.
\<close>

definition getNextID :: "env \<Rightarrow> nat \<times> env" where
  "getNextID e = (next_id e, e\<lparr>next_id := Suc (next_id e)\<rparr>)"

text \<open>
  The constructor. The identifier and the two gain nodes are taken before the \<open>url\<close>
  test, so they are spent also when the constructor throws. \<open>new_streamer\<close> is the
  object a constructor call that does not throw returns.
\<close>

definition new_streamer :: "env \<Rightarrow> streamer \<times> env" where
  "new_streamer e =
     (case getNextID e of (sid, e0) \<Rightarrow>
        (\<lparr>streamID = sid, url = None, name = None, duration = None,
          ready = False, stopped = True, startTime = None, startOffset = None,
          trackNode = next_obj e0, gain = Suc (next_obj e0), garbageBuffer = True,
          primed = None, ending = None, fetchtimer = None\<rparr>,
         e0\<lparr>next_obj := Suc (Suc (next_obj e0))\<rparr>))"

definition Streamer_new :: "string option \<Rightarrow> env \<Rightarrow> (error + streamer) \<times> env" where
  "Streamer_new u e =
     (if truthy_url u then (Inl ClipsUndefined, snd (new_streamer e))
      else (Inr (fst (new_streamer e)), snd (new_streamer e)))"

definition addClip :: "string \<Rightarrow> streamer \<Rightarrow> streamer" where
  "addClip fileName s = s\<lparr>url := Some fileName, name := Some (clip_name fileName)\<rparr>"

text \<open>
  Both successful paths of \<open>load\<close> (the cached metadata, or the fetched and decoded
  asset) end by storing the duration the store reports and setting \<open>ready\<close>.
\<close>

definition load_done :: "jsnum \<Rightarrow> streamer \<Rightarrow> streamer" where
  "load_done d s = s\<lparr>duration := Some d, ready := True\<rparr>"

text \<open>The default of the \<open>offset\<close> argument of \<open>prime\<close> and \<open>stream\<close>.\<close>

definition default_offset :: "jsnum option \<Rightarrow> jsnum option \<Rightarrow> jsnum" where
  "default_offset arg so =
     (case arg of Some x \<Rightarrow> x | None \<Rightarrow> (case so of Some x \<Rightarrow> x | None \<Rightarrow> Num 0))"

text \<open>\<open>Math.min(1, this.duration - offset)\<close>\<close>

definition chunk_len :: "jsnum option \<Rightarrow> jsnum \<Rightarrow> jsnum" where
  "chunk_len d offset = js_min (Num 1) (js_sub (num_of_undef d) offset)"

text \<open>\<open>store.getAudioBuffer(name, offset, len)\<close>: a pending promise with its continuation.\<close>

definition getAudioBuffer :: "nat \<Rightarrow> string option \<Rightarrow> jsnum \<Rightarrow> jsnum \<Rightarrow> cont \<Rightarrow> env \<Rightarrow> env" where
  "getAudioBuffer i nm offset len k e =
     e\<lparr>next_task := Suc (next_task e),
       fetches := fetches e @
         [\<lparr>f_id = next_task e, f_owner = i, f_name = nm, f_offset = offset, f_len = len,
           f_cont = k\<rparr>]\<rparr>"

text \<open>\<open>prime\<close> up to its \<open>await\<close>, and the rest of it once the store has answered.\<close>

definition Streamer_prime :: "nat \<Rightarrow> jsnum option \<Rightarrow> streamer \<Rightarrow> env \<Rightarrow> error + env" where
  "Streamer_prime i arg s e =
     (let offset = default_offset arg (startOffset s) in
      if \<not> ready s then Inl (AssetNotLoaded (name s))
      else if js_ge offset (num_of_undef (duration s)) then Inl (OffsetGreater offset (duration s))
      else Inr (getAudioBuffer i (name s) offset (chunk_len (duration s) offset) (PrimeK offset) e))"

definition prime_done :: "jsnum \<Rightarrow> rat \<Rightarrow> streamer \<Rightarrow> env \<Rightarrow> streamer \<times> env" where
  "prime_done offset bufdur s e =
     (s\<lparr>primed := Some (offset, \<lparr>src_id = next_obj e, src_dur = bufdur\<rparr>)\<rparr>,
      e\<lparr>next_obj := Suc (next_obj e)\<rparr>)"

text \<open>\<open>clearTimeout(this.fetchtimer)\<close>\<close>

definition clearTimeout :: "nat option \<Rightarrow> timer list \<Rightarrow> timer list" where
  "clearTimeout h ts = (case h of None \<Rightarrow> ts | Some x \<Rightarrow> filter (\<lambda>t. t_id t \<noteq> x) ts)"

definition Streamer_stop :: "streamer \<Rightarrow> env \<Rightarrow> streamer \<times> env" where
  "Streamer_stop s e =
     (if stopped s \<or> \<not> ready s then (s, e)
      else
        let tn = next_obj e;
            elapsed = clock e - (case startTime s of None \<Rightarrow> 0 | Some t \<Rightarrow> t);
            so = js_add (num_of_null (startOffset s)) (Num elapsed);
            so' = (if js_ge so (num_of_undef (duration s)) then Num 0 else so)
        in (s\<lparr>stopped := True, trackNode := tn, startTime := None, startOffset := Some so'\<rparr>,
            e\<lparr>next_obj := Suc tn, timers := clearTimeout (fetchtimer s) (timers e)\<rparr>))"

text \<open>The local function \<open>play\<close> of \<open>stream\<close>.\<close>

definition play :: "nat \<Rightarrow> src \<Rightarrow> rat \<Rightarrow> jsnum \<Rightarrow> nat \<Rightarrow> streamer \<Rightarrow> env \<Rightarrow> streamer \<times> env" where
  "play i sr when offset output s e =
     (let e1 = e\<lparr>started := started e @
                   [\<lparr>st_src = src_id sr, st_output = output, st_when = when\<rparr>]\<rparr>;
          when' = when + src_dur sr;
          offset' = js_add offset (Num (src_dur sr))
      in if js_ge offset' (num_of_undef (duration s))
         then (s\<lparr>ending := Some (src_id sr)\<rparr>, e1\<lparr>onended := (src_id sr, i) # onended e1\<rparr>)
         else
           let fetchtime = (when' - clock e1) * 1000 - 2000;
               tid = next_task e1
           in (s\<lparr>fetchtimer := Some tid\<rparr>,
               e1\<lparr>next_task := Suc tid,
                  timers := timers e1 @
                    [\<lparr>t_id = tid, t_owner = i, t_delay = fetchtime, t_when = when',
                      t_offset = offset', t_output = output\<rparr>]\<rparr>))"

text \<open>The local function \<open>next\<close> of \<open>stream\<close>: the fetch it issues, and its \<open>then\<close> callback.\<close>

definition next_fetch :: "nat \<Rightarrow> rat \<Rightarrow> jsnum \<Rightarrow> nat \<Rightarrow> streamer \<Rightarrow> env \<Rightarrow> env" where
  "next_fetch i when offset output s e =
     getAudioBuffer i (name s) offset (chunk_len (duration s) offset) (NextK when offset output) e"

definition next_done :: "nat \<Rightarrow> rat \<Rightarrow> jsnum \<Rightarrow> nat \<Rightarrow> rat \<Rightarrow> streamer \<Rightarrow> env \<Rightarrow> streamer \<times> env" where
  "next_done i when offset output bufdur s e =
     (if stopped s \<or> output \<noteq> trackNode s then (s, e)
      else
        let sr = \<lparr>src_id = next_obj e, src_dur = bufdur\<rparr>;
            e1 = e\<lparr>next_obj := Suc (next_obj e)\<rparr>;
            when1 = (if when = 0 then clock e1 else when);
            s1 = (if startTime s = None then s\<lparr>startTime := Some when1\<rparr> else s)
        in play i sr when1 offset output s1 e1)"

text \<open>\<open>if (this.ending) { this.ending.onended = () => {}; this.ending = null; }\<close>\<close>

definition clear_ending :: "streamer \<Rightarrow> env \<Rightarrow> streamer \<times> env" where
  "clear_ending s e =
     (case ending s of None \<Rightarrow> (s, e)
      | Some x \<Rightarrow> (s\<lparr>ending := None\<rparr>, e\<lparr>onended := filter (\<lambda>h. fst h \<noteq> x) (onended e)\<rparr>))"

text \<open>The throwaway source played once: it is created and started, connected to nothing.\<close>

definition play_garbage :: "streamer \<Rightarrow> env \<Rightarrow> streamer \<times> env" where
  "play_garbage s e =
     (if garbageBuffer s then (s\<lparr>garbageBuffer := False\<rparr>, e\<lparr>next_obj := Suc (next_obj e)\<rparr>)
      else (s, e))"

definition Streamer_stream :: "nat \<Rightarrow> jsnum option \<Rightarrow> streamer \<Rightarrow> env \<Rightarrow> error + (streamer \<times> env)" where
  "Streamer_stream i arg s e =
     (let offset = default_offset arg (startOffset s) in
      if \<not> ready s then Inl (AssetNotLoaded (name s))
      else if \<not> stopped s then Inl (AlreadyPlaying (name s))
      else
        case clear_ending s e of (s1, e1) \<Rightarrow>
          if js_ge offset (num_of_undef (duration s1)) then Inr (Streamer_stop s1 e1)
          else
            case play_garbage s1 e1 of (s2, e2) \<Rightarrow>
              let s3 = s2\<lparr>stopped := False, startOffset := Some offset, primed := None\<rparr>
              in (case primed s2 of
                    None \<Rightarrow> Inr (s3, next_fetch i 0 offset (trackNode s3) s3 e2)
                  | Some (po, sr) \<Rightarrow>
                      if js_eq po offset
                      then Inr (play i sr (clock e2) offset (trackNode s3) s3 e2)
                      else Inr (s3, next_fetch i 0 offset (trackNode s3) s3 e2)))"

definition Streamer_currentTime :: "streamer \<Rightarrow> env \<Rightarrow> jsnum option" where
  "Streamer_currentTime s e =
     (if stopped s then startOffset s
      else
        let start = (case startTime s of None \<Rightarrow> clock e
                     | Some t \<Rightarrow> if t = 0 then clock e else t);
            offset = (case startOffset s of None \<Rightarrow> Num 0
                      | Some x \<Rightarrow> if js_truthy x then x else Num 0);
            elapsed = clock e - start
        in Some (js_add offset (Num elapsed)))"

definition Streamer_seek :: "nat \<Rightarrow> jsnum \<Rightarrow> streamer \<Rightarrow> env \<Rightarrow> error + (streamer \<times> env)" where
  "Streamer_seek i offset s e =
     (if \<not> stopped s
      then (case Streamer_stop s e of (s1, e1) \<Rightarrow> Streamer_stream i (Some offset) s1 e1)
      else Inr (s\<lparr>startOffset := Some offset\<rparr>, e))"

section \<open>One streamer and its event loop\<close>

text \<open>
  What the environment does between two calls: the store answers a pending fetch (with a
  buffer of some duration) or fails it, a timer fires, a started source reaches its end,
  the device clock advances.
\<close>

datatype async = FetchResolve nat rat | FetchReject nat | TimerFire nat | Ended nat | Tick rat

definition find_fetch :: "nat \<Rightarrow> env \<Rightarrow> fetch option" where
  "find_fetch fid e = find (\<lambda>f. f_id f = fid) (fetches e)"

definition drop_fetch :: "nat \<Rightarrow> env \<Rightarrow> env" where
  "drop_fetch fid e = e\<lparr>fetches := filter (\<lambda>f. f_id f \<noteq> fid) (fetches e)\<rparr>"

definition fetch_done :: "fetch \<Rightarrow> rat \<Rightarrow> streamer \<Rightarrow> env \<Rightarrow> streamer \<times> env" where
  "fetch_done f bufdur s e =
     (case f_cont f of
        PrimeK offset \<Rightarrow> prime_done offset bufdur s e
      | NextK when offset output \<Rightarrow> next_done (f_owner f) when offset output bufdur s e)"

definition find_timer :: "nat \<Rightarrow> env \<Rightarrow> timer option" where
  "find_timer tid e = find (\<lambda>t. t_id t = tid) (timers e)"

definition drop_timer :: "nat \<Rightarrow> env \<Rightarrow> env" where
  "drop_timer tid e = e\<lparr>timers := filter (\<lambda>t. t_id t \<noteq> tid) (timers e)\<rparr>"

text \<open>The timer callback of \<open>play\<close>: \<open>next( when, offset, output )\<close>.\<close>

definition timer_fired :: "timer \<Rightarrow> streamer \<Rightarrow> env \<Rightarrow> env" where
  "timer_fired t s e = next_fetch (t_owner t) (t_when t) (t_offset t) (t_output t) s e"

definition has_onended :: "nat \<Rightarrow> env \<Rightarrow> bool" where
  "has_onended x e = (x \<in> fst ` set (onended e))"

definition drop_onended :: "nat \<Rightarrow> env \<Rightarrow> env" where
  "drop_onended x e = e\<lparr>onended := filter (\<lambda>h. fst h \<noteq> x) (onended e)\<rparr>"

definition tick :: "rat \<Rightarrow> env \<Rightarrow> env" where
  "tick d e = (if 0 \<le> d then e\<lparr>clock := clock e + d\<rparr> else e)"

fun async_step :: "async \<Rightarrow> streamer \<times> env \<Rightarrow> streamer \<times> env" where
  "async_step (FetchResolve fid d) (s, e) =
     (case find_fetch fid e of None \<Rightarrow> (s, e)
      | Some f \<Rightarrow> fetch_done f d s (drop_fetch fid e))"
| "async_step (FetchReject fid) (s, e) = (s, drop_fetch fid e)"
| "async_step (TimerFire tid) (s, e) =
     (case find_timer tid e of None \<Rightarrow> (s, e)
      | Some t \<Rightarrow> (s, timer_fired t s (drop_timer tid e)))"
| "async_step (Ended x) (s, e) =
     (if has_onended x e then Streamer_stop s (drop_onended x e) else (s, e))"
| "async_step (Tick d) (s, e) = (s, tick d e)"

text \<open>
  The calls a user makes on a streamer. A call that throws leaves the streamer as it was:
  \<open>prime\<close> and \<open>stream\<close> throw before they change anything, and \<open>seek\<close> throws
  only when its \<open>stop\<close> did nothing.
\<close>

datatype sevent =
    Prime "jsnum option"
  | Stream "jsnum option"
  | Stop
  | Seek jsnum
  | CurrentTime
  | AddClip string
  | LoadDone jsnum
  | Env async

fun sexec :: "sevent \<Rightarrow> streamer \<times> env \<Rightarrow> streamer \<times> env" where
  "sexec (Prime arg) (s, e) =
     (case Streamer_prime 0 arg s e of Inl err \<Rightarrow> (s, e) | Inr e' \<Rightarrow> (s, e'))"
| "sexec (Stream arg) (s, e) =
     (case Streamer_stream 0 arg s e of Inl err \<Rightarrow> (s, e) | Inr w \<Rightarrow> w)"
| "sexec Stop (s, e) = Streamer_stop s e"
| "sexec (Seek x) (s, e) =
     (case Streamer_seek 0 x s e of Inl err \<Rightarrow> (s, e) | Inr w \<Rightarrow> w)"
| "sexec CurrentTime (s, e) = (s, e)"
| "sexec (AddClip c) (s, e) = (addClip c s, e)"
| "sexec (LoadDone d) (s, e) = (load_done d s, e)"
| "sexec (Env a) (s, e) = async_step a (s, e)"

definition srun :: "sevent list \<Rightarrow> streamer \<times> env \<Rightarrow> streamer \<times> env" where
  "srun evs w = foldl (\<lambda>w ev. sexec ev w) w evs"

text \<open>An audio context in which nothing has happened yet.\<close>

definition env0 :: env where
  "env0 = \<lparr>clock = 0, next_obj = 0, next_id = 0, next_task = 0, fetches = [], timers = [],
            started = [], onended = []\<rparr>"

section \<open>StreamCoordinator\<close>

text \<open>
  The fields \<open>startTime\<close>, \<open>startOffset\<close>, \<open>stopped\<close>, \<open>ready\<close>,
  \<open>duration\<close> and \<open>garbageBuffer\<close> of the coordinator carry the prefix \<open>c_\<close>: the
  streamer has fields of the same names. Gain values (\<open>solo\<close>) are not part of the model.
\<close>

record coordinator =
  playbackMode :: string
  urls :: "string list"
  streamers :: "streamer list"
  c_garbageBuffer :: bool
  c_startTime :: "rat option"
  c_startOffset :: "jsnum option"
  c_stopped :: bool
  c_ready :: bool
  c_duration :: "jsnum option"

text \<open>
  \<open>Promise.all( promises ).then( callback )\<close> of \<open>stream\<close>: the offset the callback
  closes over, the \<open>prime\<close> promises still pending (the fetch each waits for, and the
  index of its streamer), and whether one of them was rejected.
\<close>

record barrier =
  b_id :: nat
  b_offset :: jsnum
  b_wait :: "(nat \<times> nat) list"
  b_failed :: bool

text \<open>\<open>await Promise.all( promises )\<close> of \<open>load\<close>, over the pending \<open>load\<close> promises.\<close>

record loading =
  l_id :: nat
  l_wait :: "nat list"
  l_failed :: bool

text \<open>
  What is recorded of a run, in order: \<open>prime\<close> called on a streamer by a call of the
  coordinator's \<open>stream\<close> (named by its barrier), that \<open>prime\<close> promise fulfilled,
  and \<open>stream\<close> called on a streamer by the callback of a barrier.
\<close>

datatype obs = PrimeIssued nat nat | PrimeDone nat nat | StreamInvoked nat nat

record world =
  co :: coordinator
  en :: env
  barriers :: "barrier list"
  loadings :: "loading list"
  loads :: "(nat \<times> nat) list"
  trace :: "obs list"

definition Coordinator_new :: "string list \<Rightarrow> string \<Rightarrow> coordinator" where
  "Coordinator_new us pm =
     \<lparr>playbackMode = pm, urls = us, streamers = [],
      c_garbageBuffer = (pm = ''AudioBufferSourceNode''),
      c_startTime = None, c_startOffset = None, c_stopped = True, c_ready = False,
      c_duration = None\<rparr>"

definition new_world :: "string list \<Rightarrow> string \<Rightarrow> env \<Rightarrow> world" where
  "new_world us pm e =
     \<lparr>co = Coordinator_new us pm, en = e, barriers = [], loadings = [], loads = [], trace = []\<rparr>"

text \<open>\<open>findStreamer\<close>: the index of the first streamer with the handle's id, if any.\<close>

fun find_index_from :: "nat \<Rightarrow> nat \<Rightarrow> streamer list \<Rightarrow> nat option" where
  "find_index_from h i [] = None"
| "find_index_from h i (s # ss) = (if streamID s = h then Some i else find_index_from h (Suc i) ss)"

text \<open>
  \<open>addClipToStream\<close> and \<open>getNode\<close>. When no streamer has the id, \<open>findStreamer\<close>
  constructs a dummy streamer, which is then dropped: only the context remembers it.
\<close>

definition addClipToStream :: "nat \<Rightarrow> string \<Rightarrow> world \<Rightarrow> world" where
  "addClipToStream h fileName w =
     (case find_index_from h 0 (streamers (co w)) of
        None \<Rightarrow> w\<lparr>en := snd (new_streamer (en w))\<rparr>
      | Some i \<Rightarrow>
          w\<lparr>co := (co w)\<lparr>streamers := (streamers (co w))[i := addClip fileName (streamers (co w) ! i)]\<rparr>\<rparr>)"

definition getNode :: "nat \<Rightarrow> world \<Rightarrow> nat \<times> world" where
  "getNode h w =
     (case find_index_from h 0 (streamers (co w)) of
        None \<Rightarrow> (trackNode (fst (new_streamer (en w))), w\<lparr>en := snd (new_streamer (en w))\<rparr>)
      | Some i \<Rightarrow> (trackNode (streamers (co w) ! i), w))"

text \<open>
  \<open>createStream\<close>. Modelled from the spec: the class \<open>AudioWorkletStreamer\<close> of the
  mode \<open>AudioWorkletNode\<close> is not among the sources; the spec has the mode change only
  how the output node is built, so that mode creates a streamer as the other one does.
\<close>

definition createStream :: "world \<Rightarrow> nat option \<times> world" where
  "createStream w =
     (if playbackMode (co w) = ''AudioWorkletNode'' \<or> playbackMode (co w) = ''AudioBufferSourceNode''
      then (case new_streamer (en w) of (s, e') \<Rightarrow>
              (Some (streamID s),
               w\<lparr>co := (co w)\<lparr>streamers := streamers (co w) @ [s]\<rparr>, en := e'\<rparr>))
      else (None, w))"

text \<open>
  \<open>this.streamers.map( streamer => streamer.prime( offset ) )\<close>: every streamer is asked
  in turn; a \<open>prime\<close> that throws is a rejected promise, one that does not is a promise
  waiting for its fetch.
\<close>

fun prime_each :: "jsnum \<Rightarrow> nat \<Rightarrow> streamer list \<Rightarrow> env \<Rightarrow> (nat \<times> nat) list \<times> bool \<times> env" where
  "prime_each offset i [] e = ([], False, e)"
| "prime_each offset i (s # ss) e =
     (case Streamer_prime i (Some offset) s e of
        Inl err \<Rightarrow>
          (case prime_each offset (Suc i) ss e of (ws, failed, e') \<Rightarrow> (ws, True, e'))
      | Inr e1 \<Rightarrow>
          (case prime_each offset (Suc i) ss e1 of (ws, failed, e') \<Rightarrow>
             ((next_task e, i) # ws, failed, e')))"

definition Coordinator_stream :: "jsnum option \<Rightarrow> world \<Rightarrow> world" where
  "Coordinator_stream arg w =
     (let c = co w;
          offset = default_offset arg (c_startOffset c);
          e1 = (if c_garbageBuffer c then (en w)\<lparr>next_obj := Suc (next_obj (en w))\<rparr> else en w);
          bid = next_task e1;
          e2 = e1\<lparr>next_task := Suc bid\<rparr>
      in case prime_each offset 0 (streamers c) e2 of (ws, failed, e3) \<Rightarrow>
           w\<lparr>co := c\<lparr>c_garbageBuffer := False, c_stopped := False, c_startOffset := Some offset\<rparr>,
             en := e3,
             barriers := barriers w @
               [\<lparr>b_id = bid, b_offset = offset, b_wait = ws, b_failed = failed\<rparr>],
             trace := trace w @ map (PrimeIssued bid) [0..<length (streamers c)]\<rparr>)"

text \<open>
  \<open>this.streamers.forEach( streamer => streamer.stream( offset ) )\<close>: a \<open>stream\<close>
  that throws ends the loop, the streamers before it stay started. The number returned is
  the number of calls made.
\<close>

fun stream_each :: "jsnum \<Rightarrow> nat \<Rightarrow> streamer list \<Rightarrow> env \<Rightarrow> streamer list \<times> nat \<times> env" where
  "stream_each offset i [] e = ([], 0, e)"
| "stream_each offset i (s # ss) e =
     (case Streamer_stream i (Some offset) s e of
        Inl err \<Rightarrow> (s # ss, Suc 0, e)
      | Inr (s', e') \<Rightarrow>
          (case stream_each offset (Suc i) ss e' of (ss', n, e'') \<Rightarrow> (s' # ss', Suc n, e'')))"

definition find_barrier :: "nat \<Rightarrow> world \<Rightarrow> barrier option" where
  "find_barrier bid w = find (\<lambda>b. b_id b = bid) (barriers w)"

text \<open>The callback runs once every promise is fulfilled, and never after a rejection.\<close>

definition barrier_open :: "barrier \<Rightarrow> bool" where
  "barrier_open b = (b_wait b = [] \<and> \<not> b_failed b)"

definition barrier_fire :: "nat \<Rightarrow> world \<Rightarrow> world" where
  "barrier_fire bid w =
     (case find_barrier bid w of
        None \<Rightarrow> w
      | Some b \<Rightarrow>
          if \<not> barrier_open b then w
          else
            let c = co w;
                c1 = (if c_startTime c = None then c\<lparr>c_startTime := Some (clock (en w))\<rparr> else c)
            in case stream_each (b_offset b) 0 (streamers c1) (en w) of (ss, n, e') \<Rightarrow>
                 w\<lparr>co := c1\<lparr>streamers := ss\<rparr>, en := e',
                   barriers := filter (\<lambda>x. b_id x \<noteq> bid) (barriers w),
                   trace := trace w @ map (StreamInvoked bid) [0..<n]\<rparr>)"

text \<open>\<open>this.streamers.forEach( streamer => streamer.stop() )\<close>\<close>

fun stop_each :: "streamer list \<Rightarrow> env \<Rightarrow> streamer list \<times> env" where
  "stop_each [] e = ([], e)"
| "stop_each (s # ss) e =
     (case Streamer_stop s e of (s', e') \<Rightarrow>
        (case stop_each ss e' of (ss', e'') \<Rightarrow> (s' # ss', e'')))"

definition Coordinator_stop :: "world \<Rightarrow> world" where
  "Coordinator_stop w =
     (if c_stopped (co w) then w
      else
        case stop_each (streamers (co w)) (en w) of (ss, e') \<Rightarrow>
          let c = co w;
              elapsed = clock e' - (case c_startTime c of None \<Rightarrow> 0 | Some t \<Rightarrow> t);
              so = js_add (num_of_null (c_startOffset c)) (Num elapsed);
              so' = (if js_ge so (num_of_undef (c_duration c)) then Num 0 else so)
          in w\<lparr>co := c\<lparr>streamers := ss, c_stopped := True, c_startTime := None,
                        c_startOffset := Some so'\<rparr>,
               en := e'\<rparr>)"

text \<open>The value \<open>current\<close> that \<open>currentTime\<close> computes when the coordinator is not stopped.\<close>

definition Coordinator_current :: "world \<Rightarrow> jsnum" where
  "Coordinator_current w =
     (let c = co w;
          start = (case c_startTime c of None \<Rightarrow> clock (en w)
                   | Some t \<Rightarrow> if t = 0 then clock (en w) else t);
          offset = (case c_startOffset c of None \<Rightarrow> Num 0
                    | Some x \<Rightarrow> if js_truthy x then x else Num 0);
          elapsed = clock (en w) - start
      in js_add offset (Num elapsed))"

definition Coordinator_currentTime :: "world \<Rightarrow> jsnum option \<times> world" where
  "Coordinator_currentTime w =
     (if c_stopped (co w) then (c_startOffset (co w), w)
      else if js_ge (Coordinator_current w) (num_of_undef (c_duration (co w)))
           then (Some (Num 0), Coordinator_stop w)
           else (Some (Coordinator_current w), w))"

definition Coordinator_seek :: "jsnum \<Rightarrow> world \<Rightarrow> world" where
  "Coordinator_seek offset w =
     (if \<not> c_stopped (co w) then Coordinator_stream (Some offset) (Coordinator_stop w)
      else w\<lparr>co := (co w)\<lparr>c_startOffset := Some offset\<rparr>\<rparr>)"

text \<open>
  \<open>load\<close>: one pending \<open>load\<close> promise per streamer, and the rest of the function
  waiting for all of them. \<open>load_finish\<close> is that rest: the maximum of the durations.
\<close>

definition Coordinator_load :: "world \<Rightarrow> world" where
  "Coordinator_load w =
     (let n = length (streamers (co w));
          t0 = next_task (en w);
          ids = map (\<lambda>i. t0 + i) [0..<n]
      in w\<lparr>en := (en w)\<lparr>next_task := Suc (t0 + n)\<rparr>,
           loads := loads w @ zip ids [0..<n],
           loadings := loadings w @ [\<lparr>l_id = t0 + n, l_wait = ids, l_failed = False\<rparr>]\<rparr>)"

definition loading_open :: "loading \<Rightarrow> bool" where
  "loading_open l = (l_wait l = [] \<and> \<not> l_failed l)"

definition load_finish :: "nat \<Rightarrow> world \<Rightarrow> world" where
  "load_finish lid w =
     (case find (\<lambda>l. l_id l = lid) (loadings w) of
        None \<Rightarrow> w
      | Some l \<Rightarrow>
          if \<not> loading_open l then w
          else w\<lparr>co := (co w)\<lparr>c_duration :=
                      Some (js_max_list (map (\<lambda>s. num_of_undef (duration s)) (streamers (co w))))\<rparr>,
                 loadings := filter (\<lambda>x. l_id x \<noteq> lid) (loadings w)\<rparr>)"

definition load_resolve :: "nat \<Rightarrow> jsnum \<Rightarrow> world \<Rightarrow> world" where
  "load_resolve tid d w =
     (case map_of (loads w) tid of
        None \<Rightarrow> w
      | Some i \<Rightarrow>
          if length (streamers (co w)) \<le> i then w
          else w\<lparr>co := (co w)\<lparr>streamers := (streamers (co w))[i := load_done d (streamers (co w) ! i)]\<rparr>,
                 loads := filter (\<lambda>p. fst p \<noteq> tid) (loads w),
                 loadings := map (\<lambda>l. l\<lparr>l_wait := filter (\<lambda>x. x \<noteq> tid) (l_wait l)\<rparr>) (loadings w)\<rparr>)"

definition load_reject :: "nat \<Rightarrow> world \<Rightarrow> world" where
  "load_reject tid w =
     (case map_of (loads w) tid of
        None \<Rightarrow> w
      | Some i \<Rightarrow>
          w\<lparr>loads := filter (\<lambda>p. fst p \<noteq> tid) (loads w),
            loadings := map (\<lambda>l. if tid \<in> set (l_wait l) then l\<lparr>l_failed := True\<rparr> else l)
                          (loadings w)\<rparr>)"

text \<open>The environment's events, sent to the streamer that owns the task.\<close>

definition on_streamer :: "nat \<Rightarrow> (streamer \<Rightarrow> env \<Rightarrow> streamer \<times> env) \<Rightarrow> world \<Rightarrow> world" where
  "on_streamer i f w =
     (if length (streamers (co w)) \<le> i then w
      else case f (streamers (co w) ! i) (en w) of (s', e') \<Rightarrow>
             w\<lparr>co := (co w)\<lparr>streamers := (streamers (co w))[i := s']\<rparr>, en := e'\<rparr>)"

definition settle :: "nat \<Rightarrow> barrier \<Rightarrow> barrier" where
  "settle fid b = b\<lparr>b_wait := filter (\<lambda>p. fst p \<noteq> fid) (b_wait b)\<rparr>"

definition settled_obs :: "nat \<Rightarrow> barrier \<Rightarrow> obs list" where
  "settled_obs fid b = map (\<lambda>p. PrimeDone (b_id b) (snd p)) (filter (\<lambda>p. fst p = fid) (b_wait b))"

definition fail :: "nat \<Rightarrow> barrier \<Rightarrow> barrier" where
  "fail fid b = (if fid \<in> fst ` set (b_wait b) then b\<lparr>b_failed := True\<rparr> else b)"

fun world_async :: "async \<Rightarrow> world \<Rightarrow> world" where
  "world_async (FetchResolve fid d) w =
     (case find_fetch fid (en w) of
        None \<Rightarrow> w
      | Some f \<Rightarrow>
          if length (streamers (co w)) \<le> f_owner f then w
          else
            (on_streamer (f_owner f) (fetch_done f d) (w\<lparr>en := drop_fetch fid (en w)\<rparr>))
              \<lparr>barriers := map (settle fid) (barriers w),
               trace := trace w @ concat (map (settled_obs fid) (barriers w))\<rparr>)"
| "world_async (FetchReject fid) w =
     w\<lparr>en := drop_fetch fid (en w), barriers := map (fail fid) (barriers w)\<rparr>"
| "world_async (TimerFire tid) w =
     (case find_timer tid (en w) of
        None \<Rightarrow> w
      | Some t \<Rightarrow>
          on_streamer (t_owner t) (\<lambda>s e. (s, timer_fired t s e)) (w\<lparr>en := drop_timer tid (en w)\<rparr>))"
| "world_async (Ended x) w =
     (case map_of (onended (en w)) x of
        None \<Rightarrow> w
      | Some i \<Rightarrow> on_streamer i Streamer_stop (w\<lparr>en := drop_onended x (en w)\<rparr>))"
| "world_async (Tick d) w = w\<lparr>en := tick d (en w)\<rparr>"

datatype cevent =
    CreateStream
  | AddClipToStream nat string
  | GetNode nat
  | Load
  | CStream "jsnum option"
  | CStop
  | CSeek jsnum
  | CCurrentTime
  | LoadResolve nat jsnum
  | LoadReject nat
  | LoadFinish nat
  | BarrierFire nat
  | CEnv async

fun cexec :: "cevent \<Rightarrow> world \<Rightarrow> world" where
  "cexec CreateStream w = snd (createStream w)"
| "cexec (AddClipToStream h c) w = addClipToStream h c w"
| "cexec (GetNode h) w = snd (getNode h w)"
| "cexec Load w = Coordinator_load w"
| "cexec (CStream arg) w = Coordinator_stream arg w"
| "cexec CStop w = Coordinator_stop w"
| "cexec (CSeek x) w = Coordinator_seek x w"
| "cexec CCurrentTime w = snd (Coordinator_currentTime w)"
| "cexec (LoadResolve tid d) w = load_resolve tid d w"
| "cexec (LoadReject tid) w = load_reject tid w"
| "cexec (LoadFinish lid) w = load_finish lid w"
| "cexec (BarrierFire bid) w = barrier_fire bid w"
| "cexec (CEnv a) w = world_async a w"

definition crun :: "cevent list \<Rightarrow> world \<Rightarrow> world" where
  "crun evs w = foldl (\<lambda>w ev. cexec ev w) w evs"

section \<open>Concrete streamers\<close>

text \<open>A streamer created in a fresh context whose asset of 5 seconds has been loaded.\<close>

definition loaded5 :: "streamer \<times> env" where
  "loaded5 = srun [LoadDone (Num 5)] (new_streamer env0)"

text \<open>The same streamer after \<open>seek(2)\<close>, still stopped.\<close>

definition cursor_at_2 :: "streamer \<times> env" where
  "cursor_at_2 = srun [LoadDone (Num 5), Seek (Num 2)] (new_streamer env0)"

text \<open>
  The same streamer after \<open>stream(0)\<close>, the arrival of the first chunk (one second long)
  and half a second of playback.
\<close>

definition playing_at_half :: "streamer \<times> env" where
  "playing_at_half =
     srun [LoadDone (Num 5), Stream (Some (Num 0)), Env (FetchResolve 0 1), Env (Tick (1/2))]
       (new_streamer env0)"

section \<open>Events that move the cursor, events that attach a clip\<close>

definition moves_cursor :: "sevent \<Rightarrow> bool" where
  "moves_cursor ev = (case ev of Stream arg \<Rightarrow> True | Seek x \<Rightarrow> True | _ \<Rightarrow> False)"

definition c_moves_cursor :: "cevent \<Rightarrow> bool" where
  "c_moves_cursor ev = (case ev of CStream arg \<Rightarrow> True | CSeek x \<Rightarrow> True | _ \<Rightarrow> False)"

definition is_addClip :: "sevent \<Rightarrow> bool" where
  "is_addClip ev = (case ev of AddClip c \<Rightarrow> True | _ \<Rightarrow> False)"

text \<open>A streamer that is not ready is stopped: \<open>stream\<close> alone clears \<open>stopped\<close>.\<close>

definition ready_or_stopped :: "streamer \<Rightarrow> bool" where
  "ready_or_stopped s = (ready s \<or> stopped s)"

definition wf_streamers :: "world \<Rightarrow> bool" where
  "wf_streamers w = (\<forall>s \<in> set (streamers (co w)). ready_or_stopped s)"

section \<open>Concrete coordinators\<close>

text \<open>A coordinator that owns no streamer.\<close>

definition no_tracks :: world where
  "no_tracks = new_world [] ''AudioBufferSourceNode'' env0"

text \<open>A coordinator with two loaded tracks of 3 and 5 seconds.\<close>

definition two_tracks :: world where
  "two_tracks =
     crun [CreateStream, CreateStream, AddClipToStream 0 ''audio/drums.wav'',
           AddClipToStream 1 ''audio/bass.wav'', Load, LoadResolve 0 (Num 3),
           LoadResolve 1 (Num 5), LoadFinish 2]
       (new_world [] ''AudioBufferSourceNode'' env0)"

text \<open>
  \<open>stream(0)\<close> on the two tracks at device time \<open>t\<close>; the store answers both
  \<open>prime\<close> fetches \<open>l\<close> seconds later and the barrier callback runs; then \<open>r\<close>
  more seconds pass.
\<close>

definition scenario :: "rat \<Rightarrow> rat \<Rightarrow> rat \<Rightarrow> world" where
  "scenario t l r =
     crun [CEnv (Tick t), CStream (Some (Num 0)), CEnv (Tick l), CEnv (FetchResolve 4 1),
           CEnv (FetchResolve 5 1), BarrierFire 3, CEnv (Tick r)] two_tracks"

section \<open>What holds of a streamer and its pending tasks\<close>

text \<open>The output node a pending fetch of the streaming loop was issued against.\<close>

definition next_output :: "fetch \<Rightarrow> nat option" where
  "next_output f = (case f_cont f of PrimeK offset \<Rightarrow> None | NextK when offset output \<Rightarrow> Some output)"

text \<open>
  A fetch whose continuation would pass the guard of \<open>next\<close>, for a streamer with
  output node \<open>tn\<close> and stopped flag \<open>st\<close>.
\<close>

definition live :: "nat \<Rightarrow> bool \<Rightarrow> fetch \<Rightarrow> bool" where
  "live tn st f = (\<not> st \<and> next_output f = Some tn)"

text \<open>
  Every fetch of the streaming loop was issued against the current output node or an
  older one, and against an older one when the streamer is stopped.
\<close>

definition fetch_ok :: "nat \<Rightarrow> bool \<Rightarrow> fetch list \<Rightarrow> bool" where
  "fetch_ok tn st fs =
     (\<forall>f \<in> set fs. \<forall>out. next_output f = Some out \<longrightarrow> out \<le> tn \<and> (st \<longrightarrow> out \<noteq> tn))"

text \<open>A pending timer is \<open>this.fetchtimer\<close>, of a playing streamer, for its current output node.\<close>

definition timer_ok :: "nat \<Rightarrow> bool \<Rightarrow> nat option \<Rightarrow> timer list \<Rightarrow> bool" where
  "timer_ok tn st ft ts = (\<forall>t \<in> set ts. t_output t = tn \<and> \<not> st \<and> ft = Some (t_id t))"

text \<open>At most one task of the streaming loop is alive: a fetch that will pass the guard, or a timer.\<close>

definition one_ok :: "nat \<Rightarrow> bool \<Rightarrow> fetch list \<Rightarrow> timer list \<Rightarrow> bool" where
  "one_ok tn st fs ts = (length (filter (live tn st) fs) + length ts \<le> 1)"

text \<open>Pending fetches have distinct identifiers, all given out already.\<close>

definition ids_ok :: "nat \<Rightarrow> fetch list \<Rightarrow> bool" where
  "ids_ok nt fs = (distinct (map f_id fs) \<and> (\<forall>f \<in> set fs. f_id f < nt))"

definition sinv :: "streamer \<times> env \<Rightarrow> bool" where
  "sinv w =
     (trackNode (fst w) < next_obj (snd w) \<and>
      fetch_ok (trackNode (fst w)) (stopped (fst w)) (fetches (snd w)) \<and>
      timer_ok (trackNode (fst w)) (stopped (fst w)) (fetchtimer (fst w)) (timers (snd w)) \<and>
      one_ok (trackNode (fst w)) (stopped (fst w)) (fetches (snd w)) (timers (snd w)) \<and>
      ids_ok (next_task (snd w)) (fetches (snd w)) \<and>
      (ready (fst w) \<or> stopped (fst w)))"



section \<open>More concrete streamers\<close>

text \<open>
  \<open>stream(0)\<close>, \<open>stop()\<close> before the first chunk has arrived, then \<open>stream(2)\<close>:
  the fetch of the first span is still pending.
\<close>

definition restarted :: "streamer \<times> env" where
  "restarted = srun [Stream (Some (Num 2))] (sexec Stop (srun [LoadDone (Num 5), Stream (Some (Num 0))] (new_streamer env0)))"

text \<open>The fetch \<open>stream(0)\<close> issued, against output node 0.\<close>

definition first_fetch :: fetch where
  "first_fetch = \<lparr>f_id = 0, f_owner = 0, f_name = None, f_offset = Num 0, f_len = Num 1,
     f_cont = NextK 0 (Num 0) 0\<rparr>"


text \<open>
  \<open>stream(0)\<close>, the first chunk arrives and plays, and \<open>prime(2)\<close> is called: its
  fetch is pending.
\<close>

definition prime_in_flight :: "streamer \<times> env" where
  "prime_in_flight =
     srun [LoadDone (Num 5), Stream (Some (Num 0)), Env (FetchResolve 0 1), Prime (Some (Num 2))]
       (new_streamer env0)"

text \<open>The fetch that \<open>prime(2)\<close> issued.\<close>

definition prime_fetch :: fetch where
  "prime_fetch = \<lparr>f_id = 2, f_owner = 0, f_name = None, f_offset = Num 2, f_len = Num 1,
     f_cont = PrimeK (Num 2)\<rparr>"

section \<open>What holds of the coordinator's barriers\<close>















section \<open>Properties of the streamer\<close>

lemmas streamer_defs =
  new_streamer_def getNextID_def env0_def load_done_def addClip_def default_offset_def
  chunk_len_def getAudioBuffer_def Streamer_prime_def prime_done_def clearTimeout_def
  Streamer_stop_def play_def next_fetch_def next_done_def clear_ending_def play_garbage_def
  Streamer_stream_def Streamer_seek_def Streamer_currentTime_def
  find_fetch_def drop_fetch_def fetch_done_def find_timer_def drop_timer_def timer_fired_def
  has_onended_def drop_onended_def tick_def srun_def
  js_sub_def js_eq_def js_min_def js_max_def js_truthy_def num_of_null_def num_of_undef_def
  Let_def

lemmas world_defs =
  new_world_def Coordinator_new_def addClipToStream_def getNode_def createStream_def
  Coordinator_stream_def find_barrier_def barrier_open_def barrier_fire_def
  Coordinator_stop_def Coordinator_current_def Coordinator_currentTime_def Coordinator_seek_def
  Coordinator_load_def loading_open_def load_finish_def load_resolve_def load_reject_def
  on_streamer_def settle_def settled_obs_def fail_def crun_def js_max_list_def

lemma srun_snoc: "srun (evs @ [ev]) w = sexec ev (srun evs w)"
  by (simp add: srun_def)

lemma crun_snoc: "crun (evs @ [ev]) w = cexec ev (crun evs w)"
  by (simp add: crun_def)

subsection \<open>stream past the end\<close>

text \<open>
  Claim C3, as the code has it. On a ready, stopped streamer, \<open>stream(offset)\<close> with
  \<open>offset >= duration\<close> returns through \<open>this.stop()\<close>, which does nothing on a
  stopped streamer: the streamer stays stopped, its cursor \<open>startOffset\<close> keeps the
  value it had (it is not reset to 0), only a pending end-of-file callback is cleared, and
  no chunk is fetched, no timer set and nothing scheduled.
\<close>

theorem stream_past_end_is_noop:
  "ready s \<Longrightarrow> stopped s \<Longrightarrow> js_ge offset (num_of_undef (duration s)) \<Longrightarrow>
   Streamer_stream i (Some offset) s e = Inr (clear_ending s e) \<and>
   fst (clear_ending s e) = s\<lparr>ending := None\<rparr> \<and>
   stopped (fst (clear_ending s e)) \<and>
   startOffset (fst (clear_ending s e)) = startOffset s \<and>
   fetches (snd (clear_ending s e)) = fetches e \<and>
   timers (snd (clear_ending s e)) = timers e \<and>
   started (snd (clear_ending s e)) = started e"
  by (simp add: Streamer_stream_def Streamer_stop_def clear_ending_def default_offset_def
      split: option.splits prod.splits)

theorem stream_past_end_is_noop_witness:
  "ready (fst cursor_at_2) \<and> stopped (fst cursor_at_2) \<and>
   js_ge (Num 7) (num_of_undef (duration (fst cursor_at_2))) \<and>
   Streamer_stream 0 (Some (Num 7)) (fst cursor_at_2) (snd cursor_at_2) = Inr cursor_at_2"
proof -
  have r: "ready (fst cursor_at_2)" and st: "stopped (fst cursor_at_2)"
    and g: "js_ge (Num 7) (num_of_undef (duration (fst cursor_at_2)))"
    by (simp_all add: cursor_at_2_def streamer_defs)
  have "clear_ending (fst cursor_at_2) (snd cursor_at_2) = cursor_at_2"
    by (simp add: cursor_at_2_def streamer_defs)
  with stream_past_end_is_noop [OF r st g, of 0 "snd cursor_at_2"] r st g
  show ?thesis by simp
qed

text \<open>
  Claim C3 as stated fails: a ready, stopped streamer of duration 5 with its cursor at 2
  still has its cursor at 2, not at 0, after \<open>stream(7)\<close>.
\<close>

theorem stream_past_end_cursor_kept:
  "ready (fst cursor_at_2) \<and> stopped (fst cursor_at_2) \<and>
   duration (fst cursor_at_2) = Some (Num 5) \<and> js_ge (Num 7) (Num 5) \<and>
   startOffset (fst cursor_at_2) = Some (Num 2) \<and>
   Streamer_stream 0 (Some (Num 7)) (fst cursor_at_2) (snd cursor_at_2) = Inr cursor_at_2 \<and>
   startOffset (fst (sexec (Stream (Some (Num 7))) cursor_at_2)) \<noteq> Some (Num 0)"
  by (simp add: cursor_at_2_def streamer_defs)

subsection \<open>prime\<close>

text \<open>
  Claim C5. \<open>prime(offset)\<close> fails with the not-loaded error when \<open>ready\<close> is false
  (whatever the offset), fails with the offset error when the streamer is ready and
  \<open>offset >= duration\<close>, and otherwise issues exactly one fetch, for the window that
  starts at \<open>offset\<close> and is \<open>min(1, duration - offset)\<close> long; when the store
  answers, the buffer becomes the primed chunk whatever chunk was primed before. An
  omitted offset is the cursor \<open>startOffset\<close>, or 0 when the cursor is still \<open>null\<close>.
\<close>

theorem prime_checks_and_fetch:
  "(\<not> ready s \<longrightarrow> Streamer_prime i arg s e = Inl (AssetNotLoaded (name s))) \<and>
   (ready s \<and> js_ge (default_offset arg (startOffset s)) (num_of_undef (duration s)) \<longrightarrow>
      Streamer_prime i arg s e =
        Inl (OffsetGreater (default_offset arg (startOffset s)) (duration s))) \<and>
   (ready s \<and> \<not> js_ge (default_offset arg (startOffset s)) (num_of_undef (duration s)) \<longrightarrow>
      Streamer_prime i arg s e =
        Inr (e\<lparr>next_task := Suc (next_task e),
               fetches := fetches e @
                 [\<lparr>f_id = next_task e, f_owner = i, f_name = name s,
                   f_offset = default_offset arg (startOffset s),
                   f_len = js_min (Num 1)
                     (js_sub (num_of_undef (duration s)) (default_offset arg (startOffset s))),
                   f_cont = PrimeK (default_offset arg (startOffset s))\<rparr>]\<rparr>)) \<and>
   (\<forall>f offset d s' e'. f_cont f = PrimeK offset \<longrightarrow>
      fetch_done f d s' e' =
        (s'\<lparr>primed := Some (offset, \<lparr>src_id = next_obj e', src_dur = d\<rparr>)\<rparr>,
         e'\<lparr>next_obj := Suc (next_obj e')\<rparr>)) \<and>
   default_offset (Some x) so = x \<and>
   default_offset None (Some y) = y \<and>
   default_offset None None = Num 0"
proof -
  have "\<And>f offset d s' e'. f_cont f = PrimeK offset \<Longrightarrow>
      fetch_done f d s' e' =
        (s'\<lparr>primed := Some (offset, \<lparr>src_id = next_obj e', src_dur = d\<rparr>)\<rparr>,
         e'\<lparr>next_obj := Suc (next_obj e')\<rparr>)"
    by (simp add: fetch_done_def prime_done_def)
  moreover have "default_offset (Some x) so = x" "default_offset None (Some y) = y"
    "default_offset None None = Num 0"
    by (simp_all add: default_offset_def)
  ultimately show ?thesis
    by (simp add: Streamer_prime_def getAudioBuffer_def chunk_len_def Let_def)
qed

theorem prime_checks_and_fetch_witness:
  "\<not> ready (fst (new_streamer env0)) \<and>
   Streamer_prime 0 (Some (Num 0)) (fst (new_streamer env0)) (snd (new_streamer env0)) =
     Inl (AssetNotLoaded None) \<and>
   ready (fst cursor_at_2) \<and>
   Streamer_prime 0 (Some (Num 7)) (fst cursor_at_2) (snd cursor_at_2) =
     Inl (OffsetGreater (Num 7) (Some (Num 5))) \<and>
   fetches (snd (sexec (Prime None) cursor_at_2)) =
     [\<lparr>f_id = 0, f_owner = 0, f_name = None, f_offset = Num 2, f_len = Num 1,
       f_cont = PrimeK (Num 2)\<rparr>] \<and>
   primed (fst (srun [Prime None, Env (FetchResolve 0 1)] cursor_at_2)) =
     Some (Num 2, \<lparr>src_id = 2, src_dur = 1\<rparr>)"
proof -
  have a: "\<not> ready (fst (new_streamer env0))" "ready (fst cursor_at_2)"
      "js_ge (default_offset (Some (Num 7)) (startOffset (fst cursor_at_2)))
         (num_of_undef (duration (fst cursor_at_2)))"
      "name (fst (new_streamer env0)) = None" "duration (fst cursor_at_2) = Some (Num 5)"
    by (simp_all add: cursor_at_2_def streamer_defs)
  have b: "fetches (snd (sexec (Prime None) cursor_at_2)) =
     [\<lparr>f_id = 0, f_owner = 0, f_name = None, f_offset = Num 2, f_len = Num 1,
       f_cont = PrimeK (Num 2)\<rparr>]"
    "primed (fst (srun [Prime None, Env (FetchResolve 0 1)] cursor_at_2)) =
     Some (Num 2, \<lparr>src_id = 2, src_dur = 1\<rparr>)"
    by (simp_all add: cursor_at_2_def streamer_defs)
  show ?thesis
    using a b
      prime_checks_and_fetch [of "fst (new_streamer env0)" 0 "Some (Num 0)" "snd (new_streamer env0)"]
      prime_checks_and_fetch [of "fst cursor_at_2" 0 "Some (Num 7)" "snd cursor_at_2"]
    by (simp add: default_offset_def)
qed

subsection \<open>stop\<close>

text \<open>
  Claim C6. \<open>stop()\<close> is idempotent: for every state of the streamer and of its
  context, two calls in succession leave exactly the state one call leaves (the whole
  state: stopped flag, cursor, anchor, output node, pending timers and everything else),
  and \<open>stop()\<close> on a streamer that is stopped or not ready changes nothing.
\<close>

theorem stop_idempotent:
  "sexec Stop (sexec Stop w) = sexec Stop w \<and>
   (stopped (fst w) \<or> \<not> ready (fst w) \<longrightarrow> sexec Stop w = w)"
  by (cases w) (simp add: Streamer_stop_def Let_def)

theorem stop_idempotent_witness:
  "\<not> stopped (fst playing_at_half) \<and>
   stopped (fst (sexec Stop playing_at_half)) \<and>
   startOffset (fst (sexec Stop playing_at_half)) = Some (Num (1/2)) \<and>
   sexec Stop (sexec Stop playing_at_half) = sexec Stop playing_at_half \<and>
   stopped (fst loaded5) \<and> sexec Stop loaded5 = loaded5"
proof -
  have "stopped (fst loaded5)" by (simp add: loaded5_def streamer_defs)
  moreover have "\<not> stopped (fst playing_at_half)"
    and "stopped (fst (sexec Stop playing_at_half))"
    and "startOffset (fst (sexec Stop playing_at_half)) = Some (Num (1/2))"
    by (simp_all add: playing_at_half_def streamer_defs)
  ultimately show ?thesis
    using stop_idempotent [of playing_at_half] stop_idempotent [of loaded5] by simp
qed

subsection \<open>Fields no asynchronous step touches\<close>

lemma stop_stopped: "stopped s \<Longrightarrow> Streamer_stop s e = (s, e)"
  by (simp add: Streamer_stop_def)

lemma play_frame:
  "stopped (fst (play i sr wh off out s e)) = stopped s"
  "startOffset (fst (play i sr wh off out s e)) = startOffset s"
  "name (fst (play i sr wh off out s e)) = name s"
  "url (fst (play i sr wh off out s e)) = url s"
  "ready (fst (play i sr wh off out s e)) = ready s"
  "duration (fst (play i sr wh off out s e)) = duration s"
  "trackNode (fst (play i sr wh off out s e)) = trackNode s"
  by (simp_all add: play_def Let_def)

lemma fetch_done_frame:
  "stopped (fst (fetch_done f d s e)) = stopped s"
  "startOffset (fst (fetch_done f d s e)) = startOffset s"
  "name (fst (fetch_done f d s e)) = name s"
  "url (fst (fetch_done f d s e)) = url s"
  "ready (fst (fetch_done f d s e)) = ready s"
  "duration (fst (fetch_done f d s e)) = duration s"
  "trackNode (fst (fetch_done f d s e)) = trackNode s"
  by (simp_all add: fetch_done_def prime_done_def next_done_def play_frame Let_def split: cont.splits)

lemma stop_frame:
  "name (fst (Streamer_stop s e)) = name s"
  "url (fst (Streamer_stop s e)) = url s"
  "ready (fst (Streamer_stop s e)) = ready s"
  "duration (fst (Streamer_stop s e)) = duration s"
  by (simp_all add: Streamer_stop_def Let_def)

lemma stream_frame:
  assumes "Streamer_stream i arg s e = Inr w"
  shows "name (fst w) = name s" "url (fst w) = url s" "ready (fst w) = ready s"
    "duration (fst w) = duration s"
  using assms
  by (auto simp: Streamer_stream_def clear_ending_def play_garbage_def play_frame stop_frame Let_def
      split: if_splits option.splits prod.splits)

lemma seek_frame_conj:
  assumes "Streamer_seek i x s e = Inr w"
  shows "name (fst w) = name s \<and> url (fst w) = url s \<and> ready (fst w) = ready s \<and>
    duration (fst w) = duration s"
proof (cases "stopped s")
  case True
  with assms show ?thesis by (auto simp: Streamer_seek_def)
next
  case False
  with assms have "Streamer_stream i (Some x) (fst (Streamer_stop s e)) (snd (Streamer_stop s e)) = Inr w"
    by (simp add: Streamer_seek_def split: prod.splits)
  from stream_frame [OF this] show ?thesis by (simp add: stop_frame)
qed

lemmas seek_frame = seek_frame_conj [THEN conjunct1] seek_frame_conj [THEN conjunct2, THEN conjunct1]
  seek_frame_conj [THEN conjunct2, THEN conjunct2, THEN conjunct1]
  seek_frame_conj [THEN conjunct2, THEN conjunct2, THEN conjunct2]

lemma async_frame:
  "name (fst (async_step a w)) = name (fst w)"
  "url (fst (async_step a w)) = url (fst w)"
  "ready (fst (async_step a w)) = ready (fst w)"
  "duration (fst (async_step a w)) = duration (fst w)"
  by (cases a; cases w; simp add: fetch_done_frame stop_frame split: option.splits)+

lemma sexec_keeps_name:
  "\<not> is_addClip ev \<Longrightarrow> name (fst (sexec ev w)) = name (fst w) \<and> url (fst (sexec ev w)) = url (fst w)"
  by (cases ev; cases w)
    (auto simp: is_addClip_def load_done_def async_frame stop_frame
      dest: stream_frame seek_frame split: sum.splits prod.splits if_splits)

subsection \<open>The constructor and the clip\<close>

text \<open>
  Claim C8. For every \<open>url\<close> that is neither \<open>null\<close> nor empty the constructor
  throws, at \<open>this.clips.push\<close>; a constructor call that returns a streamer was given a
  \<open>null\<close> or empty \<open>url\<close>, and the streamer has neither name nor locator.
  \<open>addClip\<close> (which \<open>addClipToStream\<close> calls) sets both, and no other call on the
  streamer and no step of its event loop changes either.
\<close>

theorem constructor_throws_on_url:
  "(truthy_url u \<longrightarrow> fst (Streamer_new u e) = Inl ClipsUndefined) \<and>
   (\<forall>s. fst (Streamer_new u e) = Inr s \<longrightarrow>
      (u = None \<or> u = Some []) \<and> s = fst (new_streamer e) \<and> name s = None \<and> url s = None) \<and>
   name (addClip c s0) = Some (clip_name c) \<and> url (addClip c s0) = Some c \<and>
   (\<not> is_addClip ev \<longrightarrow>
      name (fst (sexec ev w)) = name (fst w) \<and> url (fst (sexec ev w)) = url (fst w))"
proof -
  have "\<And>s. fst (Streamer_new u e) = Inr s \<Longrightarrow>
      (u = None \<or> u = Some []) \<and> s = fst (new_streamer e) \<and> name s = None \<and> url s = None"
    by (auto simp: Streamer_new_def truthy_url_def new_streamer_def getNextID_def
        split: if_splits option.splits)
  then show ?thesis
    using sexec_keeps_name [of ev w]
    by (simp add: Streamer_new_def addClip_def)
qed

theorem constructor_throws_on_url_witness:
  "truthy_url (Some ''audio/drums.wav'') \<and>
   fst (Streamer_new (Some ''audio/drums.wav'') env0) = Inl ClipsUndefined \<and>
   fst (Streamer_new None env0) = Inr (fst (new_streamer env0)) \<and>
   fst (Streamer_new (Some []) env0) = Inr (fst (new_streamer env0)) \<and>
   name (fst (new_streamer env0)) = None \<and>
   name (fst (sexec (AddClip ''audio/drums.wav'') (new_streamer env0))) = Some ''drums'' \<and>
   \<not> is_addClip (LoadDone (Num 5)) \<and>
   name (fst (sexec (LoadDone (Num 5)) (sexec (AddClip ''audio/drums.wav'') (new_streamer env0)))) =
     Some ''drums''"
proof -
  have a: "truthy_url (Some ''audio/drums.wav'')" "\<not> is_addClip (LoadDone (Num 5))"
    "fst (Streamer_new None env0) = Inr (fst (new_streamer env0))"
    "fst (Streamer_new (Some []) env0) = Inr (fst (new_streamer env0))"
    "name (fst (sexec (AddClip ''audio/drums.wav'') (new_streamer env0))) = Some ''drums''"
    by (simp_all add: truthy_url_def is_addClip_def Streamer_new_def addClip_def clip_name_def
        new_streamer_def getNextID_def)
  note t = constructor_throws_on_url [of "Some ''audio/drums.wav''" env0 "''audio/drums.wav''"
        "fst (new_streamer env0)" "LoadDone (Num 5)"
        "sexec (AddClip ''audio/drums.wav'') (new_streamer env0)"]
  from t a(1) have b: "fst (Streamer_new (Some ''audio/drums.wav'') env0) = Inl ClipsUndefined"
    by blast
  from t a(2) have c: "name (fst (sexec (LoadDone (Num 5))
        (sexec (AddClip ''audio/drums.wav'') (new_streamer env0)))) =
      name (fst (sexec (AddClip ''audio/drums.wav'') (new_streamer env0)))"
    by blast
  have d: "name (fst (new_streamer env0)) = None"
    by (simp add: new_streamer_def getNextID_def)
  from a b c d show ?thesis by simp
qed

subsection \<open>currentTime before any stream or seek\<close>

lemma sexec_fresh:
  "\<not> moves_cursor ev \<Longrightarrow> stopped (fst w) \<and> startOffset (fst w) = None \<Longrightarrow>
   stopped (fst (sexec ev w)) \<and> startOffset (fst (sexec ev w)) = None"
proof (cases ev)
  case (Env a)
  assume "stopped (fst w) \<and> startOffset (fst w) = None"
  then show ?thesis using Env
    by (cases a; cases w) (simp_all add: fetch_done_frame stop_stopped split: option.splits)
qed (cases w; simp add: moves_cursor_def stop_stopped addClip_def load_done_def split: sum.splits)+

lemma srun_fresh:
  "\<forall>ev \<in> set evs. \<not> moves_cursor ev \<Longrightarrow>
   stopped (fst (srun evs (new_streamer e))) \<and> startOffset (fst (srun evs (new_streamer e))) = None"
proof (induction evs rule: rev_induct)
  case Nil
  then show ?case by (simp add: srun_def new_streamer_def getNextID_def)
next
  case (snoc ev evs)
  then show ?case by (simp add: srun_snoc sexec_fresh)
qed


lemma on_streamer_co:
  "c_stopped (co (on_streamer i f w)) = c_stopped (co w)"
  "c_startOffset (co (on_streamer i f w)) = c_startOffset (co w)"
  "c_startTime (co (on_streamer i f w)) = c_startTime (co w)"
  "c_duration (co (on_streamer i f w)) = c_duration (co w)"
  by (simp_all add: on_streamer_def split: prod.splits)

lemma world_async_co:
  "c_stopped (co (world_async a w)) = c_stopped (co w)"
  "c_startOffset (co (world_async a w)) = c_startOffset (co w)"
  "c_startTime (co (world_async a w)) = c_startTime (co w)"
  "c_duration (co (world_async a w)) = c_duration (co w)"
  by (cases a; simp add: on_streamer_co split: option.splits)+

lemma cexec_fresh:
  "\<not> c_moves_cursor ev \<Longrightarrow> c_stopped (co w) \<and> c_startOffset (co w) = None \<Longrightarrow>
   c_stopped (co (cexec ev w)) \<and> c_startOffset (co (cexec ev w)) = None"
  by (cases ev)
    (auto simp: c_moves_cursor_def createStream_def addClipToStream_def getNode_def
      Coordinator_load_def Coordinator_stop_def Coordinator_currentTime_def load_resolve_def
      load_reject_def load_finish_def barrier_fire_def world_async_co Let_def
      split: option.splits prod.splits)

lemma crun_fresh:
  "\<forall>ev \<in> set evs. \<not> c_moves_cursor ev \<Longrightarrow>
   c_stopped (co (crun evs (new_world us pm e))) \<and>
   c_startOffset (co (crun evs (new_world us pm e))) = None"
proof (induction evs rule: rev_induct)
  case Nil
  then show ?case by (simp add: crun_def new_world_def Coordinator_new_def)
next
  case (snoc ev evs)
  then show ?case by (simp add: crun_snoc cexec_fresh)
qed

text \<open>
  Claim C9. On a freshly constructed streamer, and on a freshly constructed coordinator,
  \<open>currentTime()\<close> returns \<open>null\<close> (here \<open>None\<close>), the initial \<open>startOffset\<close>,
  and it goes on doing so whatever else is called and whatever the event loop delivers, as
  long as neither \<open>stream\<close> nor \<open>seek\<close> is called.
\<close>

theorem currentTime_null_when_fresh:
  "((\<forall>ev \<in> set evs. \<not> moves_cursor ev) \<longrightarrow>
      Streamer_currentTime (fst (srun evs (new_streamer e))) (snd (srun evs (new_streamer e))) = None) \<and>
   ((\<forall>ev \<in> set cevs. \<not> c_moves_cursor ev) \<longrightarrow>
      fst (Coordinator_currentTime (crun cevs (new_world us pm e))) = None) \<and>
   Streamer_new None e = (Inr (fst (new_streamer e)), snd (new_streamer e))"
  using srun_fresh [of evs e] crun_fresh [of cevs us pm e]
  by (simp add: Streamer_currentTime_def Coordinator_currentTime_def Streamer_new_def truthy_url_def)

theorem currentTime_null_when_fresh_witness:
  "Streamer_currentTime (fst (new_streamer env0)) (snd (new_streamer env0)) = None \<and>
   Streamer_currentTime
     (fst (srun [AddClip ''a/drums.wav'', LoadDone (Num 5), Prime None, Stop] (new_streamer env0)))
     (snd (srun [AddClip ''a/drums.wav'', LoadDone (Num 5), Prime None, Stop] (new_streamer env0))) = None \<and>
   fst (Coordinator_currentTime (new_world [] ''AudioBufferSourceNode'' env0)) = None \<and>
   fst (Coordinator_currentTime
     (crun [CreateStream, Load, CStop] (new_world [] ''AudioBufferSourceNode'' env0))) = None"
  using currentTime_null_when_fresh [of "[]" env0 "[]" "[]" "''AudioBufferSourceNode''"]
    currentTime_null_when_fresh [of "[AddClip ''a/drums.wav'', LoadDone (Num 5), Prime None, Stop]" env0
          "[CreateStream, Load, CStop]" "[]" "''AudioBufferSourceNode''"]
  by (simp add: srun_def crun_def moves_cursor_def c_moves_cursor_def)

subsection \<open>load without streamers\<close>

lemma js_add_not_NaN: "x \<noteq> NaN \<Longrightarrow> js_add x (Num r) \<noteq> NaN"
  by (cases x) simp_all

lemma js_ge_NegInf: "x \<noteq> NaN \<Longrightarrow> js_ge x NegInf"
  by (cases x) simp_all

lemma current_not_NaN: "Coordinator_current w \<noteq> NaN"
  by (auto simp: Coordinator_current_def Let_def js_truthy_def intro!: js_add_not_NaN
      split: option.splits)

lemma Coordinator_stop_stopped: "c_stopped (co (Coordinator_stop w))"
  by (simp add: Coordinator_stop_def Let_def split: prod.splits)

lemma find_append_miss:
  "\<forall>y \<in> set xs. \<not> P y \<Longrightarrow> find P (xs @ [x]) = (if P x then Some x else None)"
  by (induction xs) simp_all

text \<open>
  Claim C10. When the coordinator owns no streamer, \<open>load()\<close> waits for nothing (its
  \<open>Promise.all\<close> is over no promise, so the function goes on as soon as the event loop
  lets it) and sets \<open>duration\<close> to \<open>-Infinity\<close>; with that duration every
  \<open>currentTime()\<close> on a coordinator that is not stopped stops it and returns 0.
\<close>

theorem load_without_streamers:
  "(streamers (co w) = [] \<and> (\<forall>l \<in> set (loadings w). l_id l \<noteq> next_task (en w)) \<longrightarrow>
      loadings (Coordinator_load w) =
        loadings w @ [\<lparr>l_id = next_task (en w), l_wait = [], l_failed = False\<rparr>] \<and>
      c_duration (co (load_finish (next_task (en w)) (Coordinator_load w))) = Some NegInf) \<and>
   (c_duration (co w) = Some NegInf \<and> \<not> c_stopped (co w) \<longrightarrow>
      fst (Coordinator_currentTime w) = Some (Num 0) \<and>
      c_stopped (co (snd (Coordinator_currentTime w))))"
proof -
  have a: "c_duration (co (load_finish (next_task (en w)) (Coordinator_load w))) = Some NegInf"
    and b: "loadings (Coordinator_load w) =
        loadings w @ [\<lparr>l_id = next_task (en w), l_wait = [], l_failed = False\<rparr>]"
    if "streamers (co w) = []" "\<forall>l \<in> set (loadings w). l_id l \<noteq> next_task (en w)"
    using that
    by (simp_all add: Coordinator_load_def load_finish_def loading_open_def js_max_list_def
        find_append_miss Let_def)
  have c: "fst (Coordinator_currentTime w) = Some (Num 0) \<and>
      c_stopped (co (snd (Coordinator_currentTime w)))"
    if "c_duration (co w) = Some NegInf" "\<not> c_stopped (co w)"
    using that current_not_NaN [of w]
    by (simp add: Coordinator_currentTime_def num_of_undef_def js_ge_NegInf
        Coordinator_stop_stopped)
  from a b c show ?thesis by blast
qed

theorem load_without_streamers_witness:
  "streamers (co no_tracks) = [] \<and> loadings no_tracks = [] \<and>
   c_duration (co (crun [Load, LoadFinish 0] no_tracks)) = Some NegInf \<and>
   \<not> c_stopped (co (crun [Load, LoadFinish 0, CStream (Some (Num 3)), BarrierFire 1, CEnv (Tick 1)] no_tracks)) \<and>
   fst (Coordinator_currentTime
     (crun [Load, LoadFinish 0, CStream (Some (Num 3)), BarrierFire 1, CEnv (Tick 1)] no_tracks)) = Some (Num 0) \<and>
   c_stopped (co (snd (Coordinator_currentTime
     (crun [Load, LoadFinish 0, CStream (Some (Num 3)), BarrierFire 1, CEnv (Tick 1)] no_tracks))))"
proof -
  let ?w = "crun [Load, LoadFinish 0, CStream (Some (Num 3)), BarrierFire 1, CEnv (Tick 1)] no_tracks"
  have a: "streamers (co no_tracks) = []" "loadings no_tracks = []" "next_task (en no_tracks) = 0"
    by (simp_all add: no_tracks_def world_defs env0_def)
  have b: "c_duration (co ?w) = Some NegInf" "\<not> c_stopped (co ?w)"
    by (simp_all add: no_tracks_def world_defs streamer_defs)
  have c: "crun [Load, LoadFinish 0] no_tracks = load_finish 0 (Coordinator_load no_tracks)"
    by (simp add: crun_def)
  show ?thesis
    using a b c load_without_streamers [of no_tracks] load_without_streamers [of ?w] by simp
qed

subsection \<open>A streamer that is not ready is stopped\<close>

lemma stop_rs: "ready_or_stopped s \<Longrightarrow> ready_or_stopped (fst (Streamer_stop s e))"
  by (auto simp: ready_or_stopped_def Streamer_stop_def Let_def)

lemma stream_rs: "Streamer_stream i arg s e = Inr w \<Longrightarrow> ready_or_stopped (fst w)"
  using stream_frame(3) [of i arg s e w]
  by (auto simp: ready_or_stopped_def Streamer_stream_def Let_def split: if_splits)

lemma fetch_done_rs: "ready_or_stopped s \<Longrightarrow> ready_or_stopped (fst (fetch_done f d s e))"
  by (simp add: ready_or_stopped_def fetch_done_frame)

lemma new_streamer_rs: "ready_or_stopped (fst (new_streamer e))"
  by (simp add: ready_or_stopped_def new_streamer_def getNextID_def)

lemma ball_update: "\<forall>x \<in> set xs. P x \<Longrightarrow> P y \<Longrightarrow> \<forall>x \<in> set (xs[i := y]). P x"
  using set_update_subset_insert [of xs i y] by auto

lemma stop_each_rs:
  "\<forall>s \<in> set ss. ready_or_stopped s \<Longrightarrow> stop_each ss e = (ss', e') \<Longrightarrow>
   \<forall>s \<in> set ss'. ready_or_stopped s"
proof (induction ss arbitrary: e ss' e')
  case Nil
  then show ?case by simp
next
  case (Cons s ss)
  obtain s1 e1 where a: "Streamer_stop s e = (s1, e1)" by (cases "Streamer_stop s e")
  obtain ss2 e2 where b: "stop_each ss e1 = (ss2, e2)" by (cases "stop_each ss e1")
  have "ready_or_stopped s1" using stop_rs [of s e] a Cons.prems(1) by simp
  moreover have "\<forall>x \<in> set ss2. ready_or_stopped x" using Cons.IH [OF _ b] Cons.prems(1) by simp
  moreover have "ss' = s1 # ss2" using Cons.prems(2) a b by simp
  ultimately show ?case by simp
qed

lemma stop_each_stopped:
  "\<forall>s \<in> set ss. ready_or_stopped s \<Longrightarrow> stop_each ss e = (ss', e') \<Longrightarrow>
   \<forall>s \<in> set ss'. stopped s"
proof (induction ss arbitrary: e ss' e')
  case Nil
  then show ?case by simp
next
  case (Cons s ss)
  obtain s1 e1 where a: "Streamer_stop s e = (s1, e1)" by (cases "Streamer_stop s e")
  obtain ss2 e2 where b: "stop_each ss e1 = (ss2, e2)" by (cases "stop_each ss e1")
  have "stopped s1"
    using Cons.prems(1) a by (auto simp: ready_or_stopped_def Streamer_stop_def Let_def split: if_splits)
  moreover have "\<forall>x \<in> set ss2. stopped x" using Cons.IH [OF _ b] Cons.prems(1) by simp
  moreover have "ss' = s1 # ss2" using Cons.prems(2) a b by simp
  ultimately show ?case by simp
qed

lemma stream_each_rs:
  "\<forall>s \<in> set ss. ready_or_stopped s \<Longrightarrow> stream_each offset i ss e = (ss', n, e') \<Longrightarrow>
   \<forall>s \<in> set ss'. ready_or_stopped s"
proof (induction ss arbitrary: i e ss' n e')
  case Nil
  then show ?case by simp
next
  case (Cons s ss)
  show ?case
  proof (cases "Streamer_stream i (Some offset) s e")
    case (Inl err)
    with Cons.prems show ?thesis by auto
  next
    case (Inr w)
    obtain s1 e1 where w: "w = (s1, e1)" by (cases w)
    obtain ss2 n2 e2 where b: "stream_each offset (Suc i) ss e1 = (ss2, n2, e2)"
      by (cases "stream_each offset (Suc i) ss e1")
    have "ready_or_stopped s1" using stream_rs [OF Inr] w by simp
    moreover have "\<forall>x \<in> set ss2. ready_or_stopped x" using Cons.IH [OF _ b] Cons.prems(1) by simp
    moreover have "ss' = s1 # ss2" using Cons.prems(2) Inr w b by simp
    ultimately show ?thesis by simp
  qed
qed

lemma on_streamer_rs:
  assumes "wf_streamers w" and "\<And>s e. ready_or_stopped s \<Longrightarrow> ready_or_stopped (fst (f s e))"
  shows "wf_streamers (on_streamer i f w)"
proof (cases "length (streamers (co w)) \<le> i")
  case True
  with assms(1) show ?thesis by (simp add: on_streamer_def)
next
  case False
  then have "ready_or_stopped (streamers (co w) ! i)"
    using assms(1) by (simp add: wf_streamers_def)
  then have "ready_or_stopped (fst (f (streamers (co w) ! i) (en w)))" by (rule assms(2))
  with assms(1) have "\<forall>x \<in> set ((streamers (co w))[i := fst (f (streamers (co w) ! i) (en w))]).
      ready_or_stopped x"
    by (intro ball_update) (simp_all add: wf_streamers_def)
  with False show ?thesis
    by (simp add: on_streamer_def wf_streamers_def split: prod.splits)
qed

lemma wf_en [simp]: "wf_streamers (w\<lparr>en := e\<rparr>) = wf_streamers w"
  by (simp add: wf_streamers_def)

lemma world_async_rs: "wf_streamers w \<Longrightarrow> wf_streamers (world_async a w)"
proof (cases a)
  case (FetchResolve fid d)
  assume "wf_streamers w"
  then have "wf_streamers (on_streamer i (fetch_done f d) (w\<lparr>en := drop_fetch fid (en w)\<rparr>))" for i f
    by (intro on_streamer_rs) (simp_all add: fetch_done_rs)
  then show ?thesis using FetchResolve \<open>wf_streamers w\<close>
    by (simp add: wf_streamers_def split: option.splits)
next
  case (TimerFire tid)
  assume "wf_streamers w"
  then have "wf_streamers (on_streamer i (\<lambda>s e. (s, timer_fired t s e)) (w\<lparr>en := drop_timer tid (en w)\<rparr>))" for i t
    by (intro on_streamer_rs) simp_all
  then show ?thesis using TimerFire \<open>wf_streamers w\<close> by (simp split: option.splits)
next
  case (Ended x)
  assume "wf_streamers w"
  then have "wf_streamers (on_streamer i Streamer_stop (w\<lparr>en := drop_onended x (en w)\<rparr>))" for i
    by (intro on_streamer_rs) (simp_all add: stop_rs)
  then show ?thesis using Ended \<open>wf_streamers w\<close> by (simp split: option.splits)
qed (simp_all add: wf_streamers_def)

lemma Coordinator_stop_rs: "wf_streamers w \<Longrightarrow> wf_streamers (Coordinator_stop w)"
  using stop_each_rs [of "streamers (co w)" "en w"]
  by (simp add: wf_streamers_def Coordinator_stop_def Let_def split: prod.splits)

lemma Coordinator_stream_rs: "wf_streamers w \<Longrightarrow> wf_streamers (Coordinator_stream arg w)"
  by (auto simp: wf_streamers_def Coordinator_stream_def Let_def split: prod.splits)

lemma cexec_rs: "wf_streamers w \<Longrightarrow> wf_streamers (cexec ev w)"
proof (cases ev)
  case CreateStream
  assume "wf_streamers w"
  then show ?thesis using CreateStream new_streamer_rs [of "en w"]
    by (auto simp: wf_streamers_def createStream_def split: prod.splits)
next
  case (AddClipToStream h c)
  assume a: "wf_streamers w"
  have r: "ready_or_stopped (addClip c s)" if "ready_or_stopped s" for s
    using that by (simp add: ready_or_stopped_def addClip_def)
  have "\<forall>x \<in> set ((streamers (co w))[i := addClip c (streamers (co w) ! i)]). ready_or_stopped x" for i
  proof (cases "i < length (streamers (co w))")
    case True
    then have "ready_or_stopped (streamers (co w) ! i)" using a by (simp add: wf_streamers_def)
    then have "ready_or_stopped (addClip c (streamers (co w) ! i))" by (rule r)
    with a show ?thesis by (intro ball_update) (simp_all add: wf_streamers_def)
  next
    case False
    then show ?thesis using a by (simp add: wf_streamers_def not_less list_update_beyond)
  qed
  then show ?thesis using AddClipToStream a
    by (simp add: wf_streamers_def addClipToStream_def split: option.splits)
next
  case (GetNode h)
  assume "wf_streamers w"
  then show ?thesis using GetNode by (auto simp: wf_streamers_def getNode_def split: option.splits)
next
  case Load
  assume "wf_streamers w"
  then show ?thesis using Load by (simp add: wf_streamers_def Coordinator_load_def Let_def)
next
  case (CStream arg)
  assume "wf_streamers w"
  then show ?thesis using CStream by (simp add: Coordinator_stream_rs)
next
  case CStop
  assume "wf_streamers w"
  then show ?thesis using CStop by (simp add: Coordinator_stop_rs)
next
  case (CSeek x)
  assume "wf_streamers w"
  then show ?thesis using CSeek
    by (auto simp: Coordinator_seek_def Coordinator_stop_rs Coordinator_stream_rs)
      (simp add: wf_streamers_def)
next
  case CCurrentTime
  assume "wf_streamers w"
  then show ?thesis using CCurrentTime by (simp add: Coordinator_currentTime_def Coordinator_stop_rs)
next
  case (LoadResolve tid d)
  assume a: "wf_streamers w"
  have "ready_or_stopped (load_done d s)" for s
    by (simp add: ready_or_stopped_def load_done_def)
  with a have "\<forall>x \<in> set ((streamers (co w))[i := load_done d (streamers (co w) ! i)]). ready_or_stopped x" for i
    by (intro ball_update) (simp_all add: wf_streamers_def)
  then show ?thesis using LoadResolve a
    by (simp add: wf_streamers_def load_resolve_def split: option.splits)
next
  case (LoadReject tid)
  assume "wf_streamers w"
  then show ?thesis using LoadReject by (simp add: wf_streamers_def load_reject_def split: option.splits)
next
  case (LoadFinish lid)
  assume "wf_streamers w"
  then show ?thesis using LoadFinish by (simp add: wf_streamers_def load_finish_def split: option.splits)
next
  case (BarrierFire bid)
  assume "wf_streamers w"
  then show ?thesis using BarrierFire
      stream_each_rs [of "streamers (co w)" _ 0 "en w"]
    by (simp add: wf_streamers_def barrier_fire_def Let_def split: option.splits prod.splits)
next
  case (CEnv a)
  assume "wf_streamers w"
  then show ?thesis using CEnv by (simp add: world_async_rs)
qed

lemma crun_rs: "wf_streamers (crun evs (new_world us pm e))"
proof (induction evs rule: rev_induct)
  case Nil
  then show ?case by (simp add: crun_def wf_streamers_def new_world_def Coordinator_new_def)
next
  case (snoc ev evs)
  then show ?case by (simp add: crun_snoc cexec_rs)
qed


lemma Coordinator_stop_all:
  assumes "wf_streamers w" "\<not> c_stopped (co w)"
  shows "\<forall>s \<in> set (streamers (co (Coordinator_stop w))). stopped s"
proof -
  obtain ss e' where a: "stop_each (streamers (co w)) (en w) = (ss, e')"
    by (cases "stop_each (streamers (co w)) (en w)")
  have "\<forall>s \<in> set ss. stopped s"
    using stop_each_stopped [OF _ a] assms(1) by (simp add: wf_streamers_def)
  then show ?thesis using a assms(2) by (simp add: Coordinator_stop_def Let_def)
qed

lemma scenario_co:
  "0 \<le> t \<Longrightarrow> 0 \<le> l \<Longrightarrow> 0 \<le> r \<Longrightarrow>
   c_startTime (co (scenario t l r)) = Some (t + l) \<and>
   c_startOffset (co (scenario t l r)) = Some (Num 0) \<and>
   \<not> c_stopped (co (scenario t l r)) \<and>
   c_duration (co (scenario t l r)) = Some (Num 5) \<and>
   clock (en (scenario t l r)) = t + l + r \<and>
   map duration (streamers (co (scenario t l r))) = [Some (Num 3), Some (Num 5)]"
  by (simp add: scenario_def two_tracks_def world_defs streamer_defs clip_name_def)

lemma scenario_current:
  assumes "0 \<le> t" "0 \<le> l" "0 \<le> r" "0 < t + l"
  shows "Coordinator_current (scenario t l r) = Num r"
  using scenario_co [OF assms(1-3)] assms(4)
  by (simp add: Coordinator_current_def js_truthy_def)

subsection \<open>End of playback, found by currentTime\<close>

text \<open>
  Claim C7, as the code has it. In every world the coordinator can reach, a
  \<open>currentTime()\<close> on a coordinator that is not stopped and whose computed position
  reaches or exceeds \<open>duration\<close> stops every streamer, leaves the coordinator stopped
  and returns 0. The position is counted from the anchor \<open>startTime\<close> that the barrier
  callback captures once every \<open>prime\<close> has completed: with tracks of 3 and 5 seconds
  (coordinator duration 5) and \<open>stream(0)\<close> called at device time \<open>t\<close>, priming
  taking \<open>l\<close> seconds, a read 5.1 seconds after the anchor \<open>t + l\<close> (an anchor that
  is not 0) returns 0 and leaves the coordinator stopped.
\<close>

theorem currentTime_auto_stop:
  "(w = crun evs (new_world us pm e) \<and> \<not> c_stopped (co w) \<and>
    js_ge (Coordinator_current w) (num_of_undef (c_duration (co w))) \<longrightarrow>
      Coordinator_currentTime w = (Some (Num 0), Coordinator_stop w) \<and>
      c_stopped (co (Coordinator_stop w)) \<and>
      (\<forall>s \<in> set (streamers (co (Coordinator_stop w))). stopped s)) \<and>
   (0 \<le> t \<and> 0 \<le> l \<and> 0 < t + l \<longrightarrow>
      map duration (streamers (co (scenario t l (51/10)))) = [Some (Num 3), Some (Num 5)] \<and>
      c_duration (co (scenario t l (51/10))) = Some (Num 5) \<and>
      fst (Coordinator_currentTime (scenario t l (51/10))) = Some (Num 0) \<and>
      c_stopped (co (snd (Coordinator_currentTime (scenario t l (51/10))))))"
proof -
  have p1: "Coordinator_currentTime w = (Some (Num 0), Coordinator_stop w) \<and>
      c_stopped (co (Coordinator_stop w)) \<and>
      (\<forall>s \<in> set (streamers (co (Coordinator_stop w))). stopped s)"
    if "w = crun evs (new_world us pm e)" "\<not> c_stopped (co w)"
      "js_ge (Coordinator_current w) (num_of_undef (c_duration (co w)))"
  proof -
    have "wf_streamers w" unfolding that(1) by (rule crun_rs)
    then have "\<forall>s \<in> set (streamers (co (Coordinator_stop w))). stopped s"
      using that(2) by (rule Coordinator_stop_all)
    moreover have "Coordinator_currentTime w = (Some (Num 0), Coordinator_stop w)"
      using that(2,3) by (simp add: Coordinator_currentTime_def)
    ultimately show ?thesis by (simp add: Coordinator_stop_stopped)
  qed
  have p2: "map duration (streamers (co (scenario t l (51/10)))) = [Some (Num 3), Some (Num 5)] \<and>
      c_duration (co (scenario t l (51/10))) = Some (Num 5) \<and>
      fst (Coordinator_currentTime (scenario t l (51/10))) = Some (Num 0) \<and>
      c_stopped (co (snd (Coordinator_currentTime (scenario t l (51/10)))))"
    if "0 \<le> t" "0 \<le> l" "0 < t + l"
    using scenario_co [OF that(1,2), of "51/10"] scenario_current [OF that(1,2) _ that(3), of "51/10"]
    by (simp add: Coordinator_currentTime_def num_of_undef_def Coordinator_stop_stopped)
  from p1 p2 show ?thesis by blast
qed

theorem currentTime_auto_stop_witness:
  "\<not> c_stopped (co (scenario 1 0 (51/10))) \<and>
   js_ge (Coordinator_current (scenario 1 0 (51/10)))
     (num_of_undef (c_duration (co (scenario 1 0 (51/10))))) \<and>
   Coordinator_currentTime (scenario 1 0 (51/10)) = (Some (Num 0), Coordinator_stop (scenario 1 0 (51/10))) \<and>
   c_stopped (co (Coordinator_stop (scenario 1 0 (51/10)))) \<and>
   list_all stopped (streamers (co (Coordinator_stop (scenario 1 0 (51/10)))))"
proof -
  have a: "\<not> c_stopped (co (scenario 1 0 (51/10)))"
    "js_ge (Coordinator_current (scenario 1 0 (51/10)))
       (num_of_undef (c_duration (co (scenario 1 0 (51/10)))))"
    using scenario_co [of 1 0 "51/10"] scenario_current [of 1 0 "51/10"]
    by (simp_all add: num_of_undef_def)
  have b: "scenario 1 0 (51/10) =
      crun ([CreateStream, CreateStream, AddClipToStream 0 ''audio/drums.wav'',
           AddClipToStream 1 ''audio/bass.wav'', Load, LoadResolve 0 (Num 3),
           LoadResolve 1 (Num 5), LoadFinish 2] @
           [CEnv (Tick 1), CStream (Some (Num 0)), CEnv (Tick 0), CEnv (FetchResolve 4 1),
            CEnv (FetchResolve 5 1), BarrierFire 3, CEnv (Tick (51/10))])
        (new_world [] ''AudioBufferSourceNode'' env0)"
    by (simp add: scenario_def two_tracks_def crun_def)
  show ?thesis
    using a currentTime_auto_stop [of "scenario 1 0 (51/10)" _ "[]" "''AudioBufferSourceNode''" env0 1 0, OF ] b
    by (simp add: list_all_iff)
qed

text \<open>
  Claim C7 as stated fails: \<open>stream(0)\<close> at device time 1, priming that takes 0.2
  seconds, and a read at device time 6.1, which is 5.1 seconds after \<open>stream(0)\<close>: the
  position computed is 4.9, \<open>currentTime()\<close> returns it, and the coordinator is not
  stopped.
\<close>

theorem currentTime_counts_from_anchor:
  "clock (en (scenario 1 (1/5) (49/10))) = 1 + 51/10 \<and>
   c_duration (co (scenario 1 (1/5) (49/10))) = Some (Num 5) \<and>
   \<not> c_stopped (co (scenario 1 (1/5) (49/10))) \<and>
   Coordinator_currentTime (scenario 1 (1/5) (49/10)) =
     (Some (Num (49/10)), scenario 1 (1/5) (49/10))"
  using scenario_co [of 1 "1/5" "49/10"] scenario_current [of 1 "1/5" "49/10"]
  by (simp add: Coordinator_currentTime_def num_of_undef_def)

subsection \<open>The invariant of the streaming loop\<close>

lemma fetch_ok_fresh: "fetch_ok tn st fs \<Longrightarrow> tn < tn' \<Longrightarrow> fetch_ok tn' st' fs"
  by (fastforce simp: fetch_ok_def)

lemma fetch_ok_start: "fetch_ok tn True fs \<Longrightarrow> fetch_ok tn False fs"
  by (simp add: fetch_ok_def)

lemma fetch_ok_no_live: "fetch_ok tn True fs \<Longrightarrow> f \<in> set fs \<Longrightarrow> \<not> live tn st f"
  by (auto simp: fetch_ok_def live_def)

lemma fetch_ok_filter: "fetch_ok tn st fs \<Longrightarrow> fetch_ok tn st (filter P fs)"
  by (auto simp: fetch_ok_def)

lemma fetch_ok_snoc:
  "fetch_ok tn st fs \<Longrightarrow> next_output f = None \<or> (next_output f = Some tn \<and> \<not> st) \<Longrightarrow>
   fetch_ok tn st (fs @ [f])"
  by (auto simp: fetch_ok_def)

lemma timer_ok_ids: "timer_ok tn st ft ts \<Longrightarrow> t \<in> set ts \<Longrightarrow> ft = Some (t_id t)"
  by (simp add: timer_ok_def)

lemma timer_ok_same_id:
  assumes "timer_ok tn st ft ts" "t \<in> set ts" "x \<in> set ts"
  shows "t_id x = t_id t"
  using timer_ok_ids [OF assms(1) assms(2)] timer_ok_ids [OF assms(1) assms(3)] by simp

lemma timer_ok_Nil: "timer_ok tn st ft []"
  by (simp add: timer_ok_def)

lemma timer_ok_stopped:
  assumes "timer_ok tn True ft ts"
  shows "ts = []"
proof (cases ts)
  case Nil
  then show ?thesis by simp
next
  case (Cons t ts')
  then have "t \<in> set ts" by simp
  with assms have "\<not> True" unfolding timer_ok_def by blast
  then show ?thesis by simp
qed

lemma timer_ok_drop:
  assumes "timer_ok tn st ft ts" "t \<in> set ts"
  shows "filter (\<lambda>x. t_id x \<noteq> t_id t) ts = []"
proof -
  have "\<forall>x \<in> set ts. t_id x = t_id t"
    using timer_ok_same_id [OF assms] by blast
  then show ?thesis unfolding filter_empty_conv by blast
qed

lemma timer_ok_clear:
  assumes "timer_ok tn st ft ts"
  shows "clearTimeout ft ts = []"
proof (cases ts)
  case Nil
  then show ?thesis by (simp add: clearTimeout_def split: option.splits)
next
  case (Cons t ts')
  then have t: "t \<in> set ts" by simp
  have a: "ft = Some (t_id t)" using assms t by (rule timer_ok_ids)
  have "filter (\<lambda>x. t_id x \<noteq> t_id t) ts = []" using assms t by (rule timer_ok_drop)
  with a show ?thesis by (simp add: clearTimeout_def)
qed

lemma timer_ok_single:
  "t_output t = tn \<Longrightarrow> timer_ok tn False (Some (t_id t)) [t]"
  by (simp add: timer_ok_def)

lemma filter_live_Nil: "\<forall>f \<in> set fs. \<not> live tn st f \<Longrightarrow> filter (live tn st) fs = []"
  unfolding filter_empty_conv by blast

lemma one_ok_stopped: "one_ok tn True fs []"
proof -
  have "filter (live tn True) fs = []" by (rule filter_live_Nil) (simp add: live_def)
  then show ?thesis by (simp add: one_ok_def)
qed

lemma one_ok_no_live:
  "\<forall>f \<in> set fs. \<not> live tn st f \<Longrightarrow> length ts \<le> 1 \<Longrightarrow> one_ok tn st fs ts"
  using filter_live_Nil [of fs tn st] by (simp add: one_ok_def)

lemma one_ok_snoc_live: "\<forall>f \<in> set fs. \<not> live tn st f \<Longrightarrow> one_ok tn st (fs @ [g]) []"
  using filter_live_Nil [of fs tn st] by (simp add: one_ok_def)

lemma one_ok_snoc_prime:
  assumes "one_ok tn st fs ts" "next_output g = None"
  shows "one_ok tn st (fs @ [g]) ts"
proof -
  have "\<not> live tn st g" using assms(2) by (simp add: live_def)
  then show ?thesis using assms(1) by (simp add: one_ok_def)
qed

lemma one_ok_filter:
  assumes "one_ok tn st fs ts"
  shows "one_ok tn st (filter P fs) ts"
proof -
  have "filter (live tn st) (filter P fs) = filter P (filter (live tn st) fs)"
    by (simp add: conj_commute)
  moreover have "length (filter P (filter (live tn st) fs)) \<le> length (filter (live tn st) fs)"
    by (rule length_filter_le)
  ultimately have "length (filter (live tn st) (filter P fs)) \<le> length (filter (live tn st) fs)"
    by (simp only:)
  with assms show ?thesis unfolding one_ok_def by linarith
qed

lemma live_in_filter:
  "f \<in> set fs \<Longrightarrow> live tn st f \<Longrightarrow> 0 < length (filter (live tn st) fs)"
  by (simp add: filter_empty_conv) blast

lemma one_ok_timers_Nil:
  assumes "one_ok tn st fs ts" "f \<in> set fs" "live tn st f"
  shows "ts = []"
proof -
  have "0 < length (filter (live tn st) fs)" using assms(2,3) by (rule live_in_filter)
  with assms(1) have "length ts = 0" unfolding one_ok_def by linarith
  then show ?thesis by simp
qed

lemma single_list: "length xs \<le> 1 \<Longrightarrow> x \<in> set xs \<Longrightarrow> xs = [x]"
  by (cases xs) auto

lemma one_ok_drop_live:
  assumes "one_ok tn st fs ts" "f \<in> set fs" "live tn st f"
  shows "\<forall>g \<in> set (filter (\<lambda>g. f_id g \<noteq> f_id f) fs). \<not> live tn st g"
proof
  fix g
  assume g: "g \<in> set (filter (\<lambda>g. f_id g \<noteq> f_id f) fs)"
  show "\<not> live tn st g"
  proof
    assume "live tn st g"
    with g have "g \<in> set (filter (live tn st) fs)" by simp
    moreover have "length (filter (live tn st) fs) \<le> 1"
      using assms(1) unfolding one_ok_def by linarith
    moreover have "f \<in> set (filter (live tn st) fs)" using assms(2,3) by simp
    ultimately have "g = f" using single_list [of "filter (live tn st) fs"] by fastforce
    with g show False by simp
  qed
qed

lemma one_ok_with_timer:
  assumes "one_ok tn st fs ts" "t \<in> set ts"
  shows "\<forall>f \<in> set fs. \<not> live tn st f"
proof
  fix f
  assume f: "f \<in> set fs"
  show "\<not> live tn st f"
  proof
    assume "live tn st f"
    with assms(1) f have "ts = []" by (rule one_ok_timers_Nil)
    with assms(2) show False by simp
  qed
qed

lemma ids_ok_snoc: "ids_ok nt fs \<Longrightarrow> f_id f = nt \<Longrightarrow> ids_ok (Suc nt) (fs @ [f])"
  by (auto simp: ids_ok_def less_Suc_eq)

lemma ids_ok_Suc: "ids_ok nt fs \<Longrightarrow> ids_ok (Suc nt) fs"
  by (auto simp: ids_ok_def less_Suc_eq)

lemma ids_ok_filter: "ids_ok nt fs \<Longrightarrow> ids_ok nt (filter P fs)"
  by (simp add: ids_ok_def distinct_map_filter)

lemma ids_ok_find:
  "ids_ok nt fs \<Longrightarrow> f \<in> set fs \<Longrightarrow> find (\<lambda>g. f_id g = f_id f) fs = Some f"
  by (induction fs) (auto simp: ids_ok_def)

lemma find_fetch_Some: "find_fetch fid e = Some f \<Longrightarrow> f \<in> set (fetches e) \<and> f_id f = fid"
  by (auto simp: find_fetch_def find_Some_iff)

lemma find_timer_Some: "find_timer tid e = Some t \<Longrightarrow> t \<in> set (timers e) \<and> t_id t = tid"
  by (auto simp: find_timer_def find_Some_iff)


lemma sinvI:
  "trackNode s < next_obj e \<Longrightarrow> fetch_ok (trackNode s) (stopped s) (fetches e) \<Longrightarrow>
   timer_ok (trackNode s) (stopped s) (fetchtimer s) (timers e) \<Longrightarrow>
   one_ok (trackNode s) (stopped s) (fetches e) (timers e) \<Longrightarrow>
   ids_ok (next_task e) (fetches e) \<Longrightarrow> ready s \<or> stopped s \<Longrightarrow> sinv (s, e)"
  by (simp add: sinv_def)

lemma sinvD:
  assumes "sinv (s, e)"
  shows "trackNode s < next_obj e" "fetch_ok (trackNode s) (stopped s) (fetches e)"
    "timer_ok (trackNode s) (stopped s) (fetchtimer s) (timers e)"
    "one_ok (trackNode s) (stopped s) (fetches e) (timers e)"
    "ids_ok (next_task e) (fetches e)" "ready s \<or> stopped s"
  using assms by (simp_all add: sinv_def)

lemma sinv_stop: "sinv (s, e) \<Longrightarrow> sinv (Streamer_stop s e)"
proof (cases "stopped s \<or> \<not> ready s")
  case True
  assume "sinv (s, e)"
  with True show ?thesis by (simp add: Streamer_stop_def)
next
  case False
  assume a: "sinv (s, e)"
  note d = sinvD [OF a]
  have "fetch_ok (next_obj e) True (fetches e)" using d(2,1) by (rule fetch_ok_fresh)
  moreover have "clearTimeout (fetchtimer s) (timers e) = []" using d(3) by (rule timer_ok_clear)
  ultimately show ?thesis using False d(5)
    by (simp add: Streamer_stop_def Let_def sinv_def timer_ok_Nil one_ok_stopped)
qed

lemma sinv_tick: "sinv (s, e) \<Longrightarrow> sinv (s, tick d e)"
  by (simp add: sinv_def tick_def)

lemma sinv_addClip: "sinv (s, e) \<Longrightarrow> sinv (addClip c s, e)"
  by (simp add: sinv_def addClip_def)

lemma sinv_load_done: "sinv (s, e) \<Longrightarrow> sinv (load_done d s, e)"
  by (simp add: sinv_def load_done_def)

lemma sinv_drop_fetch: "sinv (s, e) \<Longrightarrow> sinv (s, drop_fetch fid e)"
  by (simp add: sinv_def drop_fetch_def fetch_ok_filter one_ok_filter ids_ok_filter)

lemma sinv_drop_onended: "sinv (s, e) \<Longrightarrow> sinv (s, drop_onended x e)"
  by (simp add: sinv_def drop_onended_def)

lemma sinv_prime:
  assumes "sinv (s, e)" "Streamer_prime i arg s e = Inr e'"
  shows "sinv (s, e')"
proof -
  note d = sinvD [OF assms(1)]
  define f where "f = \<lparr>f_id = next_task e, f_owner = i, f_name = name s,
      f_offset = default_offset arg (startOffset s),
      f_len = chunk_len (duration s) (default_offset arg (startOffset s)),
      f_cont = PrimeK (default_offset arg (startOffset s))\<rparr>"
  have e': "e' = e\<lparr>next_task := Suc (next_task e), fetches := fetches e @ [f]\<rparr>"
    using assms(2)
    by (simp add: Streamer_prime_def getAudioBuffer_def Let_def f_def split: if_splits)
  have f: "f_id f = next_task e" "next_output f = None"
    by (simp_all add: f_def next_output_def)
  have "fetch_ok (trackNode s) (stopped s) (fetches e @ [f])"
    using d(2) f(2) by (simp add: fetch_ok_snoc)
  moreover have "one_ok (trackNode s) (stopped s) (fetches e @ [f]) (timers e)"
    using d(4) f(2) by (rule one_ok_snoc_prime)
  moreover have "ids_ok (Suc (next_task e)) (fetches e @ [f])"
    using d(5) f(1) by (rule ids_ok_snoc)
  ultimately show ?thesis using d(1,3,6) by (simp add: e' sinv_def)
qed

lemma sinv_play:
  assumes "trackNode s < next_obj e" "fetch_ok (trackNode s) False (fetches e)"
    "timers e = []" "\<forall>f \<in> set (fetches e). \<not> live (trackNode s) False f"
    "ids_ok (next_task e) (fetches e)" "ready s" "\<not> stopped s"
  shows "sinv (play i sr wh off (trackNode s) s e)"
proof -
  have one: "one_ok (trackNode s) False (fetches e) ts" if "length ts \<le> 1" for ts
    using assms(4) that by (rule one_ok_no_live)
  have ids: "ids_ok (Suc (next_task e)) (fetches e)" using assms(5) by (rule ids_ok_Suc)
  show ?thesis
  proof (cases "js_ge (js_add off (Num (src_dur sr))) (num_of_undef (duration s))")
    case True
    then show ?thesis using assms one [of "[]"]
      by (simp add: play_def Let_def sinv_def timer_ok_Nil)
  next
    case False
    then show ?thesis using assms one [of "[x]" for x] ids
      by (simp add: play_def Let_def sinv_def timer_ok_def)
  qed
qed

lemma sinv_next_fetch:
  assumes "trackNode s < next_obj e" "fetch_ok (trackNode s) False (fetches e)"
    "timers e = []" "\<forall>f \<in> set (fetches e). \<not> live (trackNode s) False f"
    "ids_ok (next_task e) (fetches e)" "ready s" "\<not> stopped s"
  shows "sinv (s, next_fetch i wh off (trackNode s) s e)"
proof -
  define f where "f = \<lparr>f_id = next_task e, f_owner = i, f_name = name s, f_offset = off,
      f_len = chunk_len (duration s) off, f_cont = NextK wh off (trackNode s)\<rparr>"
  have e': "next_fetch i wh off (trackNode s) s e =
      e\<lparr>next_task := Suc (next_task e), fetches := fetches e @ [f]\<rparr>"
    by (simp add: next_fetch_def getAudioBuffer_def f_def)
  have f: "f_id f = next_task e" "next_output f = Some (trackNode s)"
    by (simp_all add: f_def next_output_def)
  have "fetch_ok (trackNode s) False (fetches e @ [f])"
    using assms(2) f(2) by (simp add: fetch_ok_snoc)
  moreover have "one_ok (trackNode s) False (fetches e @ [f]) []"
    using assms(4) by (rule one_ok_snoc_live)
  moreover have "ids_ok (Suc (next_task e)) (fetches e @ [f])"
    using assms(5) f(1) by (rule ids_ok_snoc)
  ultimately show ?thesis using assms(1,3,6,7) by (simp add: e' sinv_def timer_ok_Nil)
qed

lemma sinv_stream:
  assumes "sinv (s, e)" "Streamer_stream i arg s e = Inr w"
  shows "sinv w"
proof -
  note d = sinvD [OF assms(1)]
  have rs: "ready s" "stopped s"
    using assms(2) by (auto simp: Streamer_stream_def Let_def split: if_splits)
  define offset where "offset = default_offset arg (startOffset s)"
  define s1 where "s1 = fst (clear_ending s e)"
  define e1 where "e1 = snd (clear_ending s e)"
  have f1: "trackNode s1 = trackNode s" "stopped s1" "ready s1" "fetchtimer s1 = fetchtimer s"
    "duration s1 = duration s"
    "next_obj e1 = next_obj e" "fetches e1 = fetches e" "timers e1 = timers e"
    "next_task e1 = next_task e"
    using rs by (simp_all add: s1_def e1_def clear_ending_def split: option.splits)
  have i1: "sinv (s1, e1)" using d f1 rs by (simp add: sinv_def)
  show ?thesis
  proof (cases "js_ge offset (num_of_undef (duration s))")
    case True
    then have "w = Streamer_stop s1 e1"
      using assms(2) rs f1(5)
      by (simp add: Streamer_stream_def Let_def offset_def s1_def e1_def case_prod_beta)
    with i1 show ?thesis by (simp add: sinv_stop)
  next
    case False
    define s2 where "s2 = fst (play_garbage s1 e1)"
    define e2 where "e2 = snd (play_garbage s1 e1)"
    define s3 where "s3 = s2\<lparr>stopped := False, startOffset := Some offset, primed := None\<rparr>"
    have f3: "trackNode s3 = trackNode s" "\<not> stopped s3" "ready s3"
      "next_obj e \<le> next_obj e2" "fetches e2 = fetches e" "timers e2 = timers e"
      "next_task e2 = next_task e"
      using f1 by (simp_all add: s3_def s2_def e2_def play_garbage_def)
    have "Streamer_stream i arg s e =
        (case primed s2 of
           None \<Rightarrow> Inr (s3, next_fetch i 0 offset (trackNode s3) s3 e2)
         | Some (po, sr) \<Rightarrow>
             if js_eq po offset
             then Inr (play i sr (clock e2) offset (trackNode s3) s3 e2)
             else Inr (s3, next_fetch i 0 offset (trackNode s3) s3 e2))"
      using rs False f1(5)
      unfolding offset_def s1_def e1_def s2_def e2_def s3_def
      by (simp add: Streamer_stream_def Let_def case_prod_beta)
    with assms(2) have w: "(\<exists>sr. w = play i sr (clock e2) offset (trackNode s3) s3 e2) \<or>
        w = (s3, next_fetch i 0 offset (trackNode s3) s3 e2)"
      by (auto split: option.splits if_splits)
    have p1: "trackNode s3 < next_obj e2" using d(1) f3 by simp
    have p2: "fetch_ok (trackNode s3) False (fetches e2)"
      using d(2) rs f3 by (simp add: fetch_ok_start)
    have p3: "timers e2 = []" using d(3) rs f3 timer_ok_stopped by simp
    have p4: "\<forall>f \<in> set (fetches e2). \<not> live (trackNode s3) False f"
      using d(2) rs f3 fetch_ok_no_live by simp
    have p5: "ids_ok (next_task e2) (fetches e2)" using d(5) f3 by simp
    from w show ?thesis
    proof
      assume "\<exists>sr. w = play i sr (clock e2) offset (trackNode s3) s3 e2"
      then obtain sr where "w = play i sr (clock e2) offset (trackNode s3) s3 e2" ..
      with sinv_play [OF p1 p2 p3 p4 p5 f3(3) f3(2)] show ?thesis by simp
    next
      assume "w = (s3, next_fetch i 0 offset (trackNode s3) s3 e2)"
      with sinv_next_fetch [OF p1 p2 p3 p4 p5 f3(3) f3(2)] show ?thesis by simp
    qed
  qed
qed


lemma sinv_seek:
  assumes "sinv (s, e)" "Streamer_seek i x s e = Inr w"
  shows "sinv w"
proof (cases "stopped s")
  case True
  with assms(2) have "w = (s\<lparr>startOffset := Some x\<rparr>, e)" by (simp add: Streamer_seek_def)
  with assms(1) show ?thesis by (simp add: sinv_def)
next
  case False
  then have "Streamer_stream i (Some x) (fst (Streamer_stop s e)) (snd (Streamer_stop s e)) = Inr w"
    using assms(2) by (simp add: Streamer_seek_def split: prod.splits)
  moreover have "sinv (fst (Streamer_stop s e), snd (Streamer_stop s e))"
    using sinv_stop [OF assms(1)] by simp
  ultimately show ?thesis by (rule sinv_stream [rotated])
qed

lemma sinv_fetch_done:
  assumes "sinv (s, e)" "find_fetch fid e = Some f"
  shows "sinv (fetch_done f d s (drop_fetch fid e))"
proof -
  note d = sinvD [OF assms(1)]
  have f: "f \<in> set (fetches e)" "f_id f = fid" using find_fetch_Some [OF assms(2)] by simp_all
  have i0: "sinv (s, drop_fetch fid e)" using assms(1) by (rule sinv_drop_fetch)
  note d0 = sinvD [OF i0]
  show ?thesis
  proof (cases "f_cont f")
    case (PrimeK offset)
    then show ?thesis using d0
      by (simp add: fetch_done_def prime_done_def sinv_def drop_fetch_def)
  next
    case (NextK wh off out)
    show ?thesis
    proof (cases "stopped s \<or> out \<noteq> trackNode s")
      case True
      then show ?thesis using NextK i0 by (simp add: fetch_done_def next_done_def)
    next
      case False
      then have lv: "live (trackNode s) (stopped s) f"
        using NextK by (simp add: live_def next_output_def)
      define e1 where "e1 = (drop_fetch fid e)\<lparr>next_obj := Suc (next_obj (drop_fetch fid e))\<rparr>"
      define s1 where "s1 = (if startTime s = None
          then s\<lparr>startTime := Some (if wh = 0 then clock e1 else wh)\<rparr> else s)"
      have fd: "fetch_done f d s (drop_fetch fid e) =
          play (f_owner f) \<lparr>src_id = next_obj (drop_fetch fid e), src_dur = d\<rparr>
            (if wh = 0 then clock e1 else wh) off (trackNode s1) s1 e1"
        using False NextK by (simp add: fetch_done_def next_done_def Let_def e1_def s1_def)
      have g: "trackNode s1 = trackNode s" "\<not> stopped s1" "ready s1"
        using False d(6) by (auto simp: s1_def)
      have h: "fetches e1 = filter (\<lambda>g. f_id g \<noteq> f_id f) (fetches e)" "timers e1 = timers e"
        "next_task e1 = next_task e" "next_obj e1 = Suc (next_obj e)"
        using f(2) by (simp_all add: e1_def drop_fetch_def)
      have p1: "trackNode s1 < next_obj e1" using d(1) g h by simp
      have p2: "fetch_ok (trackNode s1) False (fetches e1)"
        using d(2) False g h by (simp add: fetch_ok_filter)
      have p3: "timers e1 = []" using one_ok_timers_Nil [OF d(4) f(1) lv] h by simp
      have p4: "\<forall>f \<in> set (fetches e1). \<not> live (trackNode s1) False f"
        using one_ok_drop_live [OF d(4) f(1) lv] False g h by simp
      have p5: "ids_ok (next_task e1) (fetches e1)" using d(5) h by (simp add: ids_ok_filter)
      show ?thesis unfolding fd by (rule sinv_play [OF p1 p2 p3 p4 p5 g(3) g(2)])
    qed
  qed
qed

lemma sinv_timer:
  assumes "sinv (s, e)" "find_timer tid e = Some t"
  shows "sinv (s, timer_fired t s (drop_timer tid e))"
proof -
  note d = sinvD [OF assms(1)]
  have t: "t \<in> set (timers e)" "t_id t = tid" using find_timer_Some [OF assms(2)] by simp_all
  have o: "t_output t = trackNode s" "\<not> stopped s"
    using d(3) t(1) by (simp_all add: timer_ok_def)
  define e1 where "e1 = drop_timer tid e"
  have h: "fetches e1 = fetches e" "next_task e1 = next_task e" "next_obj e1 = next_obj e"
    by (simp_all add: e1_def drop_timer_def)
  have p3: "timers e1 = []" using timer_ok_drop [OF d(3) t(1)] t(2) by (simp add: e1_def drop_timer_def)
  have p1: "trackNode s < next_obj e1" using d(1) h by simp
  have p2: "fetch_ok (trackNode s) False (fetches e1)" using d(2) o h by simp
  have p4: "\<forall>f \<in> set (fetches e1). \<not> live (trackNode s) False f"
    using one_ok_with_timer [OF d(4) t(1)] o h by simp
  have p5: "ids_ok (next_task e1) (fetches e1)" using d(5) h by simp
  have r: "ready s" using d(6) o by simp
  show ?thesis
    using sinv_next_fetch [OF p1 p2 p3 p4 p5 r o(2), of "t_owner t" "t_when t" "t_offset t"] o(1)
    by (simp add: timer_fired_def e1_def)
qed

lemma sinv_async: "sinv w \<Longrightarrow> sinv (async_step a w)"
proof (cases w)
  case (Pair s e)
  assume a: "sinv w"
  show ?thesis
  proof (cases a)
    case (FetchResolve fid d)
    then show ?thesis using a Pair by (simp add: sinv_fetch_done split: option.splits)
  next
    case (FetchReject fid)
    then show ?thesis using a Pair by (simp add: sinv_drop_fetch)
  next
    case (TimerFire tid)
    then show ?thesis using a Pair by (simp add: sinv_timer split: option.splits)
  next
    case (Ended x)
    then show ?thesis using a Pair by (simp add: sinv_stop sinv_drop_onended)
  next
    case (Tick d)
    then show ?thesis using a Pair by (simp add: sinv_tick)
  qed
qed

lemma sinv_sexec: "sinv w \<Longrightarrow> sinv (sexec ev w)"
proof (cases w)
  case (Pair s e)
  assume a: "sinv w"
  show ?thesis
  proof (cases ev)
    case (Prime arg)
    then show ?thesis using a Pair sinv_prime [of s e 0 arg] by (simp split: sum.splits)
  next
    case (Stream arg)
    then show ?thesis using a Pair sinv_stream [of s e 0 arg] by (simp split: sum.splits)
  next
    case Stop
    then show ?thesis using a Pair by (simp add: sinv_stop)
  next
    case (Seek x)
    then show ?thesis using a Pair sinv_seek [of s e 0 x] by (simp split: sum.splits)
  next
    case CurrentTime
    then show ?thesis using a Pair by simp
  next
    case (AddClip c)
    then show ?thesis using a Pair by (simp add: sinv_addClip)
  next
    case (LoadDone d)
    then show ?thesis using a Pair by (simp add: sinv_load_done)
  next
    case (Env x)
    then show ?thesis using a Pair sinv_async [of w x] by simp
  qed
qed

lemma sinv_new: "fetches e = [] \<Longrightarrow> timers e = [] \<Longrightarrow> sinv (new_streamer e)"
  by (simp add: new_streamer_def getNextID_def sinv_def fetch_ok_def timer_ok_def one_ok_def ids_ok_def)

lemma sinv_srun: "sinv w \<Longrightarrow> sinv (srun evs w)"
  by (induction evs rule: rev_induct) (simp_all add: srun_def sinv_sexec)

subsection \<open>Stale fetches\<close>

lemma stream_trackNode:
  assumes "Streamer_stream i arg s e = Inr w"
  shows "trackNode (fst w) = trackNode s"
proof -
  have rs: "ready s" "stopped s"
    using assms by (auto simp: Streamer_stream_def Let_def split: if_splits)
  have a: "trackNode (fst (clear_ending s e)) = trackNode s" "stopped (fst (clear_ending s e))"
    using rs by (simp_all add: clear_ending_def split: option.splits)
  have b: "trackNode (fst (play_garbage s1 e1)) = trackNode s1" for s1 e1
    by (simp add: play_garbage_def)
  show ?thesis
    using assms rs a b
    by (auto simp: Streamer_stream_def Let_def case_prod_beta stop_stopped play_frame
        split: if_splits option.splits)
qed

lemma stop_trackNode: "sinv (s, e) \<Longrightarrow> trackNode s \<le> trackNode (fst (Streamer_stop s e))"
  by (simp add: Streamer_stop_def Let_def sinv_def)

lemma sexec_trackNode:
  assumes "sinv w"
  shows "trackNode (fst w) \<le> trackNode (fst (sexec ev w))"
proof (cases w)
  case (Pair s e)
  show ?thesis
  proof (cases ev)
    case (Prime arg)
    then show ?thesis using Pair by (simp split: sum.splits)
  next
    case (Stream arg)
    then show ?thesis using Pair stream_trackNode [of 0 arg s e] by (simp split: sum.splits)
  next
    case Stop
    then show ?thesis using Pair assms by (simp add: stop_trackNode)
  next
    case (Seek x)
    show ?thesis
    proof (cases "Streamer_seek 0 x s e")
      case (Inl err)
      then show ?thesis using Seek Pair by simp
    next
      case (Inr w')
      show ?thesis
      proof (cases "stopped s")
        case True
        then show ?thesis using Seek Pair Inr by (auto simp: Streamer_seek_def)
      next
        case False
        then have "Streamer_stream 0 (Some x) (fst (Streamer_stop s e)) (snd (Streamer_stop s e)) = Inr w'"
          using Inr by (simp add: Streamer_seek_def split: prod.splits)
        from stream_trackNode [OF this] show ?thesis
          using Seek Pair Inr assms stop_trackNode [of s e] by simp
      qed
    qed
  next
    case CurrentTime
    then show ?thesis using Pair by simp
  next
    case (AddClip c)
    then show ?thesis using Pair by (simp add: addClip_def)
  next
    case (LoadDone d)
    then show ?thesis using Pair by (simp add: load_done_def)
  next
    case (Env a)
    then show ?thesis using Pair assms sinv_drop_onended [of s e]
      by (cases a) (simp_all add: fetch_done_frame stop_trackNode drop_onended_def
          Streamer_stop_def Let_def sinv_def split: option.splits)
  qed
qed

lemma stale_forever:
  assumes "sinv w" "out < trackNode (fst w)"
  shows "sinv (srun evs w) \<and> out < trackNode (fst (srun evs w))"
proof (induction evs rule: rev_induct)
  case Nil
  then show ?case using assms by (simp add: srun_def)
next
  case (snoc ev evs)
  then show ?case
    using sinv_sexec [of "srun evs w" ev] sexec_trackNode [of "srun evs w" ev]
    by (simp add: srun_snoc)
qed

lemma stop_makes_stale:
  assumes "sinv w" "f \<in> set (fetches (snd w))" "f_cont f = NextK wh off out"
  shows "sinv (sexec Stop w) \<and> out < trackNode (fst (sexec Stop w))"
proof (cases w)
  case (Pair s e)
  have i: "sinv (Streamer_stop s e)" using assms(1) Pair by (simp add: sinv_stop)
  note d = sinvD [of "fst (Streamer_stop s e)" "snd (Streamer_stop s e)"]
  have st: "stopped (fst (Streamer_stop s e))"
    using assms(1) Pair by (auto simp: Streamer_stop_def Let_def sinv_def)
  have fs: "fetches (snd (Streamer_stop s e)) = fetches e"
    by (simp add: Streamer_stop_def Let_def)
  have "fetch_ok (trackNode (fst (Streamer_stop s e))) True (fetches e)"
    using d(2) i st fs by simp
  moreover have "f \<in> set (fetches e)" "next_output f = Some out"
    using assms(2,3) Pair by (simp_all add: next_output_def)
  ultimately have "out \<le> trackNode (fst (Streamer_stop s e)) \<and> out \<noteq> trackNode (fst (Streamer_stop s e))"
    unfolding fetch_ok_def by blast
  then show ?thesis using i Pair by simp
qed

text \<open>
  Claim C1, as the code has it. The guard is in the streaming loop only. The continuation
  of a fetch of the loop (the \<open>then\<close> callback of \<open>next\<close>) does nothing at all when
  the streamer is stopped or the output node the fetch was issued against is not, by
  identity, the streamer's current output node; and when the streamer is playing and the
  node is the current one it schedules the buffer on that node. In every run of a streamer
  created in a context without pending tasks, a fetch of the loop that is pending when
  \<open>stop()\<close> is called and completes after it, whatever is called and whatever the event
  loop delivers in between, is dropped: the streamer is unchanged, nothing is scheduled,
  no timer is set; only the fetch leaves the list of pending fetches. The fetch of
  \<open>prime\<close> has no guard: whenever it completes, whatever the state of the streamer, its
  buffer becomes the primed chunk.
\<close>

theorem stale_fetch_dropped:
  "(stopped s \<or> out \<noteq> trackNode s \<longrightarrow> next_done i wh off out d s e = (s, e)) \<and>
   (\<not> stopped s \<and> out = trackNode s \<longrightarrow>
      started (snd (next_done i wh off out d s e)) =
        started e @ [\<lparr>st_src = next_obj e, st_output = out,
                      st_when = (if wh = 0 then clock e else wh)\<rparr>]) \<and>
   (fetches e0 = [] \<and> timers e0 = [] \<and> w = srun evs (new_streamer e0) \<and>
    f \<in> set (fetches (snd w)) \<and> f_cont f = NextK wh off out \<and>
    w' = srun evs' (sexec Stop w) \<and> f \<in> set (fetches (snd w')) \<longrightarrow>
      sexec (Env (FetchResolve (f_id f) d)) w' = (fst w', drop_fetch (f_id f) (snd w'))) \<and>
   (f_cont g = PrimeK poff \<longrightarrow>
      fetch_done g d s e =
        (s\<lparr>primed := Some (poff, \<lparr>src_id = next_obj e, src_dur = d\<rparr>)\<rparr>,
         e\<lparr>next_obj := Suc (next_obj e)\<rparr>))"
proof -
  have p4: "fetch_done g d s e =
        (s\<lparr>primed := Some (poff, \<lparr>src_id = next_obj e, src_dur = d\<rparr>)\<rparr>,
         e\<lparr>next_obj := Suc (next_obj e)\<rparr>)" if "f_cont g = PrimeK poff"
    using that by (simp add: fetch_done_def prime_done_def)
  have p1: "next_done i wh off out d s e = (s, e)" if "stopped s \<or> out \<noteq> trackNode s"
    using that by (simp add: next_done_def)
  have p2: "started (snd (next_done i wh off out d s e)) =
        started e @ [\<lparr>st_src = next_obj e, st_output = out,
                      st_when = (if wh = 0 then clock e else wh)\<rparr>]"
    if "\<not> stopped s \<and> out = trackNode s"
    using that by (simp add: next_done_def play_def Let_def)
  have p3: "sexec (Env (FetchResolve (f_id f) d)) w' = (fst w', drop_fetch (f_id f) (snd w'))"
    if h: "fetches e0 = []" "timers e0 = []" "w = srun evs (new_streamer e0)"
      "f \<in> set (fetches (snd w))" "f_cont f = NextK wh off out"
      "w' = srun evs' (sexec Stop w)" "f \<in> set (fetches (snd w'))"
  proof -
    have "sinv w" unfolding h(3) using sinv_new [OF h(1,2)] by (rule sinv_srun)
    from stop_makes_stale [OF this h(4,5)]
    have "sinv w' \<and> out < trackNode (fst w')" unfolding h(6) using stale_forever by blast
    moreover obtain s' e' where w': "w' = (s', e')" by (cases w')
    ultimately have a: "sinv (s', e')" and b: "out \<noteq> trackNode s'" by simp_all
    have "f \<in> set (fetches e')" using h(7) w' by simp
    with sinvD(5) [OF a] have "find_fetch (f_id f) e' = Some f"
      unfolding find_fetch_def by (rule ids_ok_find)
    then have "async_step (FetchResolve (f_id f) d) (s', e') =
        fetch_done f d s' (drop_fetch (f_id f) e')" by simp
    also have "\<dots> = (s', drop_fetch (f_id f) e')"
      using h(5) b by (simp add: fetch_done_def next_done_def)
    finally show ?thesis using w' by simp
  qed
  from p1 p2 p3 p4 show ?thesis by blast
qed

theorem stale_fetch_dropped_witness:
  "fetches (snd (srun [LoadDone (Num 5), Stream (Some (Num 0))] (new_streamer env0))) = [first_fetch] \<and>
   f_cont first_fetch = NextK 0 (Num 0) 0 \<and>
   \<not> stopped (fst restarted) \<and> trackNode (fst restarted) = 3 \<and>
   first_fetch \<in> set (fetches (snd restarted)) \<and>
   sexec (Env (FetchResolve 0 1)) restarted = (fst restarted, drop_fetch 0 (snd restarted)) \<and>
   started (snd (sexec (Env (FetchResolve 0 1)) restarted)) = [] \<and>
   f_cont prime_fetch = PrimeK (Num 2) \<and>
   fetch_done prime_fetch 1 (fst restarted) (snd restarted) =
     ((fst restarted)\<lparr>primed := Some (Num 2, \<lparr>src_id = next_obj (snd restarted), src_dur = 1\<rparr>)\<rparr>,
      (snd restarted)\<lparr>next_obj := Suc (next_obj (snd restarted))\<rparr>) \<and>
   next_done 0 0 (Num 0) 0 1 (fst restarted) (snd restarted) = (fst restarted, snd restarted) \<and>
   \<not> stopped (fst (srun [LoadDone (Num 5), Stream (Some (Num 0))] (new_streamer env0))) \<and>
   trackNode (fst (srun [LoadDone (Num 5), Stream (Some (Num 0))] (new_streamer env0))) = 0 \<and>
   started (snd (next_done 0 0 (Num 0) 0 1
       (fst (srun [LoadDone (Num 5), Stream (Some (Num 0))] (new_streamer env0)))
       (snd (srun [LoadDone (Num 5), Stream (Some (Num 0))] (new_streamer env0))))) =
     [\<lparr>st_src = 3, st_output = 0, st_when = 0\<rparr>]"
proof -
  let ?w = "srun [LoadDone (Num 5), Stream (Some (Num 0))] (new_streamer env0)"
  have a: "fetches env0 = []" "timers env0 = []" by (simp_all add: env0_def)
  have b: "fetches (snd ?w) = [first_fetch]" "f_cont first_fetch = NextK 0 (Num 0) 0"
    "f_id first_fetch = 0"
    by (simp_all add: streamer_defs first_fetch_def)
  have c: "\<not> stopped (fst restarted)" "trackNode (fst restarted) = 3"
    "first_fetch \<in> set (fetches (snd restarted))" "started (snd restarted) = []"
    by (simp_all add: restarted_def streamer_defs first_fetch_def)
  have p: "f_cont prime_fetch = PrimeK (Num 2)" by (simp add: prime_fetch_def)
  note t = stale_fetch_dropped [where ?e0.0 = env0 and w = ?w
      and evs = "[LoadDone (Num 5), Stream (Some (Num 0))]"
      and f = first_fetch and wh = 0 and off = "Num 0" and out = 0 and w' = restarted
      and evs' = "[Stream (Some (Num 2))]" and d = 1 and g = prime_fetch and poff = "Num 2"
      and s = "fst restarted" and e = "snd restarted" and i = 0]
  have q: "\<not> stopped (fst ?w)" "trackNode (fst ?w) = 0" "started (snd ?w) = []"
    "next_obj (snd ?w) = 3" "clock (snd ?w) = 0"
    by (simp_all add: streamer_defs)
  have q': "\<not> stopped (fst ?w) \<and> 0 = trackNode (fst ?w)" using q by simp
  from stale_fetch_dropped [where s = "fst ?w" and e = "snd ?w" and out = 0 and i = 0 and wh = 0
      and off = "Num 0" and d = 1] q'
  have "started (snd (next_done 0 0 (Num 0) 0 1 (fst ?w) (snd ?w))) =
      started (snd ?w) @ [\<lparr>st_src = next_obj (snd ?w), st_output = 0,
        st_when = (if (0::rat) = 0 then clock (snd ?w) else 0)\<rparr>]"
    by blast
  then have played: "started (snd (next_done 0 0 (Num 0) 0 1 (fst ?w) (snd ?w))) =
      [\<lparr>st_src = 3, st_output = 0, st_when = 0\<rparr>]"
    by (simp add: q)
  have ne: "stopped (fst restarted) \<or> 0 \<noteq> trackNode (fst restarted)" using c(2) by simp
  from t ne have stale: "next_done 0 0 (Num 0) 0 1 (fst restarted) (snd restarted) =
      (fst restarted, snd restarted)"
    by blast
  have r: "restarted = srun [Stream (Some (Num 2))] (sexec Stop ?w)"
    by (simp add: restarted_def)
  have m: "first_fetch \<in> set (fetches (snd ?w))" using b(1) by simp
  from t a m b(2) r c(3)
  have "sexec (Env (FetchResolve (f_id first_fetch) 1)) restarted =
      (fst restarted, drop_fetch (f_id first_fetch) (snd restarted))"
    by blast
  moreover from t p
  have "fetch_done prime_fetch 1 (fst restarted) (snd restarted) =
     ((fst restarted)\<lparr>primed := Some (Num 2, \<lparr>src_id = next_obj (snd restarted), src_dur = 1\<rparr>)\<rparr>,
      (snd restarted)\<lparr>next_obj := Suc (next_obj (snd restarted))\<rparr>)"
    by blast
  ultimately show ?thesis using b c p q(1,2) played stale by (simp add: drop_fetch_def)
qed

text \<open>
  Claim C1 as stated fails for the fetch of \<open>prime\<close>: issued while the streamer plays,
  pending when \<open>stop()\<close> is called, it completes after the stop and is not dropped. It
  changes the streamer (the primed chunk, empty before, is set), and the next
  \<open>stream(2)\<close> schedules that buffer.
\<close>

theorem prime_fetch_not_dropped:
  "\<not> stopped (fst prime_in_flight) \<and>
   fetches (snd prime_in_flight) = [prime_fetch] \<and>
   fetches (snd (sexec Stop prime_in_flight)) = [prime_fetch] \<and>
   stopped (fst (sexec Stop prime_in_flight)) \<and>
   primed (fst (sexec Stop prime_in_flight)) = None \<and>
   primed (fst (srun [Stop, Env (FetchResolve 2 1)] prime_in_flight)) =
     Some (Num 2, \<lparr>src_id = 5, src_dur = 1\<rparr>) \<and>
   started (snd (srun [Stop, Env (FetchResolve 2 1)] prime_in_flight)) =
     [\<lparr>st_src = 3, st_output = 0, st_when = 0\<rparr>] \<and>
   started (snd (srun [Stop, Env (FetchResolve 2 1), Stream (Some (Num 2))] prime_in_flight)) =
     [\<lparr>st_src = 3, st_output = 0, st_when = 0\<rparr>, \<lparr>st_src = 5, st_output = 4, st_when = 0\<rparr>]"
  by (simp add: prime_in_flight_def prime_fetch_def streamer_defs)

subsection \<open>The cursor and the duration\<close>













subsection \<open>The barrier of the coordinator's stream\<close>










































































end
